theory Spec2Isabelle
  imports Main "HOL-Library.Word" "HOL-Library.Signed_Division"
begin

section \<open>Flexer: data model\<close>

text \<open>
  Shallow embedding of \<^verbatim>\<open>flexer.hpp\<close>. The C++ types \<^verbatim>\<open>int\<close> and
  \<^verbatim>\<open>unsigned int\<close> are 32-bit words, \<^verbatim>\<open>EID = uint64_t\<close> is a 64-bit word.
  Arithmetic that mixes \<^verbatim>\<open>int\<close> with \<^verbatim>\<open>unsigned int\<close> is carried out by C++ in
  \<^verbatim>\<open>unsigned int\<close> and converted back, which is addition, subtraction and multiplication
  of 32-bit words. Arithmetic between two \<^verbatim>\<open>int\<close> operands is modelled by the same
  two's-complement word operations (C++ leaves signed overflow undefined; the quotient is
  the truncating signed one). Tests on an \<^verbatim>\<open>int\<close> read the word with \<open>sint\<close>.
\<close>

type_synonym c_int = "32 word"
type_synonym c_uint = "32 word"
type_synonym EID = "64 word"

datatype Axis = Horizontal | Vertical

record Rect =
  x :: c_int
  y :: c_int
  width :: c_int
  height :: c_int

text \<open>\<^verbatim>\<open>Rect() = default\<close>: the member initialisers \<^verbatim>\<open>x{0}, y{0}, width{100}, height{100}\<close>.\<close>

definition Rect_default :: Rect where
  "Rect_default = \<lparr>x = 0, y = 0, width = 100, height = 100\<rparr>"

record Element =
  parent :: EID
  bounds :: Rect
  proportion :: c_uint
  border :: c_uint
  spacing :: c_uint
  children :: "EID list"
  axis :: Axis

text \<open>A value-initialised \<^verbatim>\<open>Element\<close>, as \<^verbatim>\<open>std::make_unique<Element>()\<close> builds it.\<close>

definition Element_default :: Element where
  "Element_default =
     \<lparr>parent = 0, bounds = Rect_default, proportion = 1, border = 3, spacing = 3,
      children = [], axis = Horizontal\<rparr>"

text \<open>
  The private state of \<^verbatim>\<open>class Flexer\<close>. Both \<^verbatim>\<open>std::map\<close>s are partial maps: whether a
  key is present is observable (through \<^verbatim>\<open>rects()\<close> and \<^verbatim>\<open>find\<close>).
\<close>

record Flexer =
  m_globalID :: EID
  m_elements :: "EID \<rightharpoonup> Element"
  m_elementLayoutRects :: "EID \<rightharpoonup> Rect"

definition Flexer_init :: Flexer where
  "Flexer_init = \<lparr>m_globalID = 1, m_elements = Map.empty, m_elementLayoutRects = Map.empty\<rparr>"

text \<open>
  Ways in which a call does not return normally: \<open>NullDeref\<close> is the dereference of the
  null pointer that \<^verbatim>\<open>getElement\<close> returns (or that \<^verbatim>\<open>m_elements[parent]\<close> inserts) for an
  identity that is not registered; \<open>OutOfFuel\<close> says that the recursion of
  \<^verbatim>\<open>performContainerLayout\<close> is deeper than the bound given to the model.
\<close>

datatype error = NullDeref | OutOfFuel

section \<open>Registration and accessors\<close>

text \<open>\<^verbatim>\<open>Flexer::addParent\<close> (lines 145-150).\<close>

definition addParent :: "EID \<Rightarrow> EID \<Rightarrow> Flexer \<Rightarrow> error + Flexer" where
  "addParent eid p st =
     (if p \<noteq> 0 then
        (case m_elements st eid of
           None \<Rightarrow> Inl NullDeref
         | Some e \<Rightarrow>
             (let els1 = (m_elements st)(eid \<mapsto> e\<lparr>parent := p\<rparr>) in
              case els1 p of
                None \<Rightarrow> Inl NullDeref
              | Some pe \<Rightarrow>
                  Inr (st\<lparr>m_elements := els1(p \<mapsto> pe\<lparr>children := children pe @ [eid]\<rparr>)\<rparr>)))
      else Inr st)"

text \<open>\<^verbatim>\<open>Flexer::createElement\<close> (lines 124-134).\<close>

definition createElement :: "Element \<Rightarrow> Flexer \<Rightarrow> error + (EID \<times> Flexer)" where
  "createElement el st =
     (let eid = m_globalID st;
          st1 = st\<lparr>m_globalID := eid + 1\<rparr>;
          new = Element_default
                  \<lparr>bounds := bounds el, axis := axis el, proportion := proportion el,
                   border := border el, spacing := spacing el\<rparr>;
          st2 = st1\<lparr>m_elements := (m_elements st1)(eid \<mapsto> new)\<rparr>
      in case addParent eid (parent el) st2 of
           Inl e \<Rightarrow> Inl e
         | Inr st3 \<Rightarrow> Inr (eid, st3))"

text \<open>\<^verbatim>\<open>Flexer::getElement\<close> (lines 136-139): \<open>None\<close> is the null pointer.\<close>

definition getElement :: "EID \<Rightarrow> Flexer \<Rightarrow> Element option" where
  "getElement eid st = m_elements st eid"

text \<open>
  \<^verbatim>\<open>m_elementLayoutRects[id]\<close>: \<^verbatim>\<open>std::map::operator[]\<close> returns the stored rectangle, and
  for an absent key first inserts a default-constructed one.
\<close>

definition rectAt :: "EID \<Rightarrow> Flexer \<Rightarrow> Rect \<times> Flexer" where
  "rectAt eid st =
     (case m_elementLayoutRects st eid of
        Some r \<Rightarrow> (r, st)
      | None \<Rightarrow>
          (Rect_default,
           st\<lparr>m_elementLayoutRects := (m_elementLayoutRects st)(eid \<mapsto> Rect_default)\<rparr>))"

text \<open>\<^verbatim>\<open>Flexer::getElementRect\<close> (lines 141-143).\<close>

definition getElementRect :: "EID \<Rightarrow> Flexer \<Rightarrow> Rect \<times> Flexer" where
  "getElementRect eid st = rectAt eid st"

section \<open>The layout pass\<close>

text \<open>Division of two \<^verbatim>\<open>int\<close>s: the quotient truncated towards zero.\<close>

definition c_div :: "c_int \<Rightarrow> c_int \<Rightarrow> c_int" where
  "c_div a b = word_of_int (sint a sdiv sint b)"

text \<open>
  Lines 160-163: \<^verbatim>\<open>totalProportions += getElement(e)->proportion\<close> over the children,
  starting from the accumulator.
\<close>

fun sumProportions :: "(EID \<rightharpoonup> Element) \<Rightarrow> EID list \<Rightarrow> c_int \<Rightarrow> error + c_int" where
  "sumProportions els [] acc = Inr acc"
| "sumProportions els (e # es) acc =
     (case els e of
        None \<Rightarrow> Inl NullDeref
      | Some c \<Rightarrow> sumProportions els es (acc + proportion c))"

text \<open>Lines 160-164: the divisor, with the guard \<^verbatim>\<open>totalProportions <= 0 ? 1 : totalProportions\<close>.\<close>

definition totalProportions :: "(EID \<rightharpoonup> Element) \<Rightarrow> EID list \<Rightarrow> error + c_int" where
  "totalProportions els es =
     (case sumProportions els es 0 of
        Inl e \<Rightarrow> Inl e
      | Inr t \<Rightarrow> Inr (if sint t \<le> 0 then 1 else t))"

text \<open>The main-axis size of a rectangle for an axis, and the other (cross-axis) size.\<close>

definition mainSize :: "Axis \<Rightarrow> Rect \<Rightarrow> c_int" where
  "mainSize ax r = (if ax = Horizontal then width r else height r)"

definition crossSize :: "Axis \<Rightarrow> Rect \<Rightarrow> c_int" where
  "crossSize ax r = (if ax = Horizontal then height r else width r)"

definition mainPos :: "Axis \<Rightarrow> Rect \<Rightarrow> c_int" where
  "mainPos ax r = (if ax = Horizontal then x r else y r)"

text \<open>
  Lines 169-178: \<^verbatim>\<open>compSize\<close> is a reference to the width or height of the local copy
  \<^verbatim>\<open>parentBounds\<close>; the loop subtracts from it the stored main-axis size of every child
  with \<^verbatim>\<open>proportion == 0\<close>.
\<close>

fun reserveFixed :: "(EID \<rightharpoonup> Element) \<Rightarrow> Axis \<Rightarrow> EID list \<Rightarrow> Rect \<Rightarrow> error + Rect" where
  "reserveFixed els ax [] pb = Inr pb"
| "reserveFixed els ax (e # es) pb =
     (case els e of
        None \<Rightarrow> Inl NullDeref
      | Some c \<Rightarrow>
          (let sz = (if ax = Horizontal then width (bounds c) else height (bounds c)) in
           reserveFixed els ax es
             (if proportion c = 0
              then (if ax = Horizontal then pb\<lparr>width := width pb - sz\<rparr>
                    else pb\<lparr>height := height pb - sz\<rparr>)
              else pb)))"

text \<open>
  Line 179: \<^verbatim>\<open>const int size = (axis == Horizontal ? parentBounds.width :
  parentBounds.height) - el->border * 2\<close>, where \<open>pb\<close> is \<^verbatim>\<open>parentBounds\<close> as the loop of
  lines 172-178 has left it.
\<close>

definition layoutSize :: "Element \<Rightarrow> Rect \<Rightarrow> c_int" where
  "layoutSize el pb = (if axis el = Horizontal then width pb else height pb) - border el * 2"

text \<open>
  Lines 184-209, the body of the third loop for one child \<open>c\<close>: from the container \<open>el\<close>,
  \<open>size\<close>, the divisor, whether the child is not \<^verbatim>\<open>el->children.back()\<close>, and the cursor
  \<^verbatim>\<open>parentBounds\<close>, the rectangle \<^verbatim>\<open>ret\<close> that is stored and the advanced cursor.
\<close>

definition placeChild ::
  "Element \<Rightarrow> c_int \<Rightarrow> c_int \<Rightarrow> bool \<Rightarrow> Element \<Rightarrow> Rect \<Rightarrow> Rect \<times> Rect" where
  "placeChild el sz tp notLast c pb =
     (let ret0 = bounds c;
          ret1 = ret0\<lparr>x := x ret0 + (x pb + border el)\<rparr>;
          ret2 = ret1\<lparr>y := y ret1 + (y pb + border el)\<rparr>
      in case axis el of
           Horizontal \<Rightarrow>
             (let sizeSlice = c_div (sz - (if proportion c \<le> 0 then width ret2 else 0)) tp;
                  ret3 = (if proportion c \<ge> 1
                          then ret2\<lparr>width := sizeSlice * proportion c\<rparr> else ret2);
                  ret4 = ret3\<lparr>height := height pb - border el * 2\<rparr>;
                  pb1 = pb\<lparr>x := x pb + width ret4\<rparr>;
                  pb2 = pb1\<lparr>width := width pb1 - width ret4\<rparr>;
                  ret5 = (if notLast then ret4\<lparr>width := width ret4 - spacing el\<rparr> else ret4)
              in (ret5, pb2))
         | Vertical \<Rightarrow>
             (let sizeSlice = c_div (sz - (if proportion c \<le> 0 then height ret2 else 0)) tp;
                  ret3 = (if proportion c \<ge> 1
                          then ret2\<lparr>height := sizeSlice * proportion c\<rparr> else ret2);
                  ret4 = ret3\<lparr>width := width pb - border el * 2\<rparr>;
                  pb1 = pb\<lparr>y := y pb + height ret4\<rparr>;
                  pb2 = pb1\<lparr>height := height pb1 - height ret4\<rparr>;
                  ret5 = (if notLast then ret4\<lparr>height := height ret4 - spacing el\<rparr> else ret4)
              in (ret5, pb2)))"

text \<open>
  Lines 181-213, the third loop over the (remaining) children: each child's rectangle is
  stored in the map and the child is then laid out by the recursive call \<open>rec\<close>, on the
  state that the previous iterations have left.
\<close>

fun layoutChildren ::
  "(EID \<Rightarrow> Flexer \<Rightarrow> error + Flexer) \<Rightarrow> Element \<Rightarrow> c_int \<Rightarrow> c_int \<Rightarrow> EID list \<Rightarrow> Rect \<Rightarrow>
   Flexer \<Rightarrow> error + Flexer" where
  "layoutChildren rec el sz tp [] pb st = Inr st"
| "layoutChildren rec el sz tp (e # es) pb st =
     (case getElement e st of
        None \<Rightarrow> Inl NullDeref
      | Some c \<Rightarrow>
          (let (ret, pb') = placeChild el sz tp (e \<noteq> last (children el)) c pb;
               st1 = st\<lparr>m_elementLayoutRects := (m_elementLayoutRects st)(e \<mapsto> ret)\<rparr>
           in case rec e st1 of
                Inl err \<Rightarrow> Inl err
              | Inr st2 \<Rightarrow> layoutChildren rec el sz tp es pb' st2))"

text \<open>Lines 156-158: a root (\<^verbatim>\<open>parent == 0\<close>) gets its stored bounds as its rectangle.\<close>

definition seedRoot :: "EID \<Rightarrow> Element \<Rightarrow> Flexer \<Rightarrow> Flexer" where
  "seedRoot eid el st =
     (if parent el = 0
      then st\<lparr>m_elementLayoutRects := (m_elementLayoutRects st)(eid \<mapsto> bounds el)\<rparr>
      else st)"

text \<open>
  \<^verbatim>\<open>Flexer::performContainerLayout\<close> (lines 152-214). The first argument bounds the depth
  of the recursion.
\<close>

primrec performContainerLayout :: "nat \<Rightarrow> EID \<Rightarrow> Flexer \<Rightarrow> error + Flexer" where
  "performContainerLayout 0 eid st = Inl OutOfFuel"
| "performContainerLayout (Suc n) eid st =
     (case getElement eid st of
        None \<Rightarrow> Inr st
      | Some el \<Rightarrow>
          (let st1 = seedRoot eid el st
           in case totalProportions (m_elements st1) (children el) of
                Inl err \<Rightarrow> Inl err
              | Inr tp \<Rightarrow>
                  if children el = [] then Inr st1
                  else
                    (let (r, st2) = rectAt eid st1 in
                     case reserveFixed (m_elements st2) (axis el) (children el) r of
                       Inl err \<Rightarrow> Inl err
                     | Inr pb \<Rightarrow>
                         layoutChildren (performContainerLayout n) el (layoutSize el pb) tp
                           (children el) pb st2)))"

text \<open>
  \<^verbatim>\<open>Flexer::performLayout\<close> (lines 106-108): the pass over identity 1, under the bound
  \<open>n\<close> on the depth of the recursion.
\<close>

definition performLayout :: "nat \<Rightarrow> Flexer \<Rightarrow> error + Flexer" where
  "performLayout n st = performContainerLayout n 1 st"

section \<open>Call sequences, well-formed engines and what one container assigns\<close>

text \<open>
  Successive calls of \<^verbatim>\<open>createElement\<close>, one per element of the list, collecting the
  returned identities; the first failing call aborts the sequence.
\<close>

fun createElements :: "Element list \<Rightarrow> Flexer \<Rightarrow> error + (EID list \<times> Flexer)" where
  "createElements [] st = Inr ([], st)"
| "createElements (el # els) st =
     (case createElement el st of
        Inl e \<Rightarrow> Inl e
      | Inr (i, st1) \<Rightarrow>
          (case createElements els st1 of
             Inl e \<Rightarrow> Inl e
           | Inr (ids, st2) \<Rightarrow> Inr (i # ids, st2)))"

text \<open>
  The engines that \<^verbatim>\<open>createElement\<close> builds when every parent it is given is 0 or an
  element created before: identities are positive and below the counter, every child
  sequence is strictly increasing (children are appended in creation order), and every
  child is a registered element, younger than its container, whose \<open>parent\<close> field names
  that container.
\<close>

definition wellFormed :: "Flexer \<Rightarrow> bool" where
  "wellFormed st \<longleftrightarrow>
     m_globalID st \<noteq> 0 \<and>
     (\<forall>p el. m_elements st p = Some el \<longrightarrow>
        p \<noteq> 0 \<and> p < m_globalID st \<and> sorted_wrt (<) (children el) \<and>
        (\<forall>c\<in>set (children el). p < c \<and> (\<exists>ec. m_elements st c = Some ec \<and> parent ec = p)))"

text \<open>\<open>reaches els a b\<close>: \<open>b\<close> is \<open>a\<close> or is found from \<open>a\<close> by following child sequences.\<close>

inductive reaches :: "(EID \<rightharpoonup> Element) \<Rightarrow> EID \<Rightarrow> EID \<Rightarrow> bool" for els where
  here: "reaches els a a"
| below: "els a = Some el \<Longrightarrow> c \<in> set (children el) \<Longrightarrow> reaches els c b \<Longrightarrow> reaches els a b"

text \<open>
  The sum, in \<^verbatim>\<open>int\<close> arithmetic, of the stored main-axis sizes of the children with
  proportion 0.
\<close>

fun fixedTotal :: "(EID \<rightharpoonup> Element) \<Rightarrow> Axis \<Rightarrow> EID list \<Rightarrow> c_int" where
  "fixedTotal els ax [] = 0"
| "fixedTotal els ax (e # es) =
     (case els e of
        None \<Rightarrow> 0
      | Some c \<Rightarrow> (if proportion c = 0 then mainSize ax (bounds c) else 0)) +
     fixedTotal els ax es"

text \<open>
  The rectangles that the third loop computes for the (remaining) children, in order: the
  loop \<open>layoutChildren\<close> without the stores and the recursive calls.
\<close>

fun childRects ::
  "(EID \<rightharpoonup> Element) \<Rightarrow> Element \<Rightarrow> c_int \<Rightarrow> c_int \<Rightarrow> EID list \<Rightarrow> Rect \<Rightarrow> (EID \<times> Rect) list" where
  "childRects els el sz tp [] pb = []"
| "childRects els el sz tp (e # es) pb =
     (case els e of
        None \<Rightarrow> []
      | Some c \<Rightarrow>
          (let (ret, pb') = placeChild el sz tp (e \<noteq> last (children el)) c pb
           in (e, ret) # childRects els el sz tp es pb'))"

text \<open>
  What a container \<open>el\<close> with rectangle \<open>r\<close> assigns to its children: divisor, reservation
  for the fixed children and \<open>size\<close> as \<^verbatim>\<open>performContainerLayout\<close> computes them, then
  \<open>childRects\<close>.
\<close>

definition containerRects ::
  "(EID \<rightharpoonup> Element) \<Rightarrow> Element \<Rightarrow> Rect \<Rightarrow> (EID \<times> Rect) list option" where
  "containerRects els el r =
     (case totalProportions els (children el) of
        Inl _ \<Rightarrow> None
      | Inr tp \<Rightarrow>
          (case reserveFixed els (axis el) (children el) r of
             Inl _ \<Rightarrow> None
           | Inr pb \<Rightarrow> Some (childRects els el (layoutSize el pb) tp (children el) pb)))"

text \<open>
  \<open>laidOut st p\<close>: if \<open>p\<close> is a registered element with children, the rectangle map holds
  a rectangle for \<open>p\<close> and, for every child, the rectangle that \<open>p\<close> assigns to it from
  that rectangle.
\<close>

definition laidOut :: "Flexer \<Rightarrow> EID \<Rightarrow> bool" where
  "laidOut st p \<longleftrightarrow>
     (\<forall>el. m_elements st p = Some el \<and> children el \<noteq> [] \<longrightarrow>
        (\<exists>r crs. m_elementLayoutRects st p = Some r \<and>
           containerRects (m_elements st) el r = Some crs \<and>
           (\<forall>(c, ret)\<in>set crs. m_elementLayoutRects st c = Some ret)))"

text \<open>
  Two notions for comparing passes. \<open>withRects s D\<close> is the engine \<open>s\<close> after the stores
  \<open>D\<close> into the rectangle map. \<open>passInput eid st\<close> is the rectangle that a pass over
  \<open>eid\<close> reads at line 168 (after the seeding of a root); a pass over an unregistered
  identity or over an element without children reads none.
\<close>

definition withRects :: "Flexer \<Rightarrow> (EID \<rightharpoonup> Rect) \<Rightarrow> Flexer" where
  "withRects s D = s\<lparr>m_elementLayoutRects := m_elementLayoutRects s ++ D\<rparr>"

definition passInput :: "EID \<Rightarrow> Flexer \<Rightarrow> Rect" where
  "passInput eid st =
     (case m_elements st eid of
        None \<Rightarrow> Rect_default
      | Some el \<Rightarrow>
          if children el = [] then Rect_default
          else fst (rectAt eid (seedRoot eid el st)))"

section \<open>Example engines\<close>

text \<open>Two roots: what two calls of \<^verbatim>\<open>createElement\<close> with \<^verbatim>\<open>parent == 0\<close> build.\<close>

definition engine_two_roots :: Flexer where
  "engine_two_roots =
     \<lparr>m_globalID = 3,
      m_elements =
        [1 \<mapsto> Element_default\<lparr>bounds := \<lparr>x = 0, y = 0, width = 300, height = 100\<rparr>\<rparr>,
         2 \<mapsto> Element_default\<lparr>bounds := \<lparr>x = 5, y = 5, width = 50, height = 50\<rparr>\<rparr>],
      m_elementLayoutRects = Map.empty\<rparr>"

text \<open>
  A horizontal root of width 300 without border and spacing, with a fixed child of width
  100 followed by a stretch child of proportion 1.
\<close>

definition engine_fixed_stretch :: Flexer where
  "engine_fixed_stretch =
     \<lparr>m_globalID = 4,
      m_elements =
        [1 \<mapsto> Element_default\<lparr>bounds := \<lparr>x = 0, y = 0, width = 300, height = 100\<rparr>,
                                border := 0, spacing := 0, children := [2, 3]\<rparr>,
         2 \<mapsto> Element_default\<lparr>parent := 1,
                                bounds := \<lparr>x = 0, y = 0, width = 100, height = 0\<rparr>,
                                proportion := 0\<rparr>,
         3 \<mapsto> Element_default\<lparr>parent := 1,
                                bounds := \<lparr>x = 0, y = 0, width = 0, height = 0\<rparr>\<rparr>],
      m_elementLayoutRects = Map.empty\<rparr>"

text \<open>
  A horizontal root without border and spacing with two fixed children of width 10, the
  first stored at the main-axis offset 50, the second at 0.
\<close>

definition engine_offsets :: Flexer where
  "engine_offsets =
     \<lparr>m_globalID = 4,
      m_elements =
        [1 \<mapsto> Element_default\<lparr>bounds := \<lparr>x = 0, y = 0, width = 100, height = 100\<rparr>,
                                border := 0, spacing := 0, children := [2, 3]\<rparr>,
         2 \<mapsto> Element_default\<lparr>parent := 1,
                                bounds := \<lparr>x = 50, y = 0, width = 10, height = 0\<rparr>,
                                proportion := 0\<rparr>,
         3 \<mapsto> Element_default\<lparr>parent := 1,
                                bounds := \<lparr>x = 0, y = 0, width = 10, height = 0\<rparr>,
                                proportion := 0\<rparr>],
      m_elementLayoutRects = Map.empty\<rparr>"

text \<open>
  A horizontal root of width 10 whose border 20 exceeds it, without spacing, with two
  stretch children stored at (0, 0, 0, 0).
\<close>

definition engine_narrow :: Flexer where
  "engine_narrow =
     \<lparr>m_globalID = 4,
      m_elements =
        [1 \<mapsto> Element_default\<lparr>bounds := \<lparr>x = 0, y = 0, width = 10, height = 100\<rparr>,
                                border := 20, spacing := 0, children := [2, 3]\<rparr>,
         2 \<mapsto> Element_default\<lparr>parent := 1,
                                bounds := \<lparr>x = 0, y = 0, width = 0, height = 0\<rparr>\<rparr>,
         3 \<mapsto> Element_default\<lparr>parent := 1,
                                bounds := \<lparr>x = 0, y = 0, width = 0, height = 0\<rparr>\<rparr>],
      m_elementLayoutRects = Map.empty\<rparr>"

text \<open>
  A horizontal root of height 100 without border with one child, created as its child with
  the stored bounds (7, 8, 9, 10), whose \<open>parent\<close> field the caller has then set to 0
  through the pointer that \<^verbatim>\<open>getElement\<close> returns.
\<close>

definition engine_detached_child :: Flexer where
  "engine_detached_child =
     \<lparr>m_globalID = 3,
      m_elements =
        [1 \<mapsto> Element_default\<lparr>bounds := \<lparr>x = 0, y = 0, width = 300, height = 100\<rparr>,
                                border := 0, spacing := 0, children := [2]\<rparr>,
         2 \<mapsto> Element_default\<lparr>bounds := \<lparr>x = 7, y = 8, width = 9, height = 10\<rparr>\<rparr>],
      m_elementLayoutRects = Map.empty\<rparr>"

section \<open>Registration: \<^verbatim>\<open>createElement\<close>\<close>

lemma createElement_id:
  "createElement el st = Inr (i, st') \<Longrightarrow> i = m_globalID st \<and> m_globalID st' = m_globalID st + 1"
  by (auto simp: createElement_def addParent_def Let_def split: if_splits option.splits sum.splits)

lemma createElements_ids:
  "createElements els st = Inr (ids, st') \<Longrightarrow>
     ids = map (\<lambda>k. m_globalID st + of_nat k) [0..<length els] \<and>
     m_globalID st' = m_globalID st + of_nat (length els)"
proof (induction els arbitrary: st ids st')
  case Nil
  then show ?case by simp
next
  case (Cons el els)
  from Cons.prems obtain i st1 ids1 where
    c1: "createElement el st = Inr (i, st1)" and
    c2: "createElements els st1 = Inr (ids1, st')" and
    ids: "ids = i # ids1"
    by (auto split: sum.splits prod.splits)
  from createElement_id [OF c1] have i: "i = m_globalID st" and g1: "m_globalID st1 = m_globalID st + 1"
    by simp_all
  from Cons.IH [OF c2] have
    ids1: "ids1 = map (\<lambda>k. m_globalID st1 + of_nat k) [0..<length els]" and
    g': "m_globalID st' = m_globalID st1 + of_nat (length els)"
    by simp_all
  have "map (\<lambda>k. m_globalID st + of_nat k) [0..<length (el # els)] =
        m_globalID st # map (\<lambda>k. m_globalID st + of_nat (Suc k)) [0..<length els]"
    by (simp add: upt_conv_Cons map_Suc_upt [symmetric] del: upt_Suc)
  with ids ids1 i g1 g' show ?case
    by (simp add: add.assoc add.commute)
qed

lemma sorted_ids_from_one:
  assumes n: "n < 2 ^ 64"
  shows "sorted_wrt (<) (map (\<lambda>k. (1::EID) + of_nat k) [0..<n])"
proof -
  have "(1::EID) + of_nat i < 1 + of_nat j" if ij: "i < j" "j < n" for i j :: nat
  proof -
    have "(of_nat (Suc i) :: EID) < of_nat (Suc j)"
      using ij n by (simp add: of_nat_word_less_iff take_bit_nat_eq_self del: of_nat_Suc)
    then show ?thesis by simp
  qed
  then show ?thesis
    by (simp add: sorted_wrt_map sorted_wrt_iff_nth_less)
qed

text \<open>
  Claim C10, as stated, fails for one call: nothing checks the parent that \<open>el\<close> names,
  and when it is the very identity that the call allocates, \<^verbatim>\<open>addParent\<close> appends the new
  identity to the new element's own children. On a fresh engine,
  \<^verbatim>\<open>createElement({.parent = 1})\<close> returns 1 and stores an element with children \<open>[1]\<close>.
\<close>

theorem createElement_self_parent_counterexample:
  "createElement (Element_default\<lparr>parent := 1\<rparr>) Flexer_init =
     Inr (1, \<lparr>m_globalID = 2,
              m_elements = [1 \<mapsto> Element_default\<lparr>parent := 1, children := [1]\<rparr>],
              m_elementLayoutRects = Map.empty\<rparr>) \<and>
   children (Element_default\<lparr>parent := 1, children := [1]\<rparr>) = [1] \<and>
   children (Element_default\<lparr>parent := 1, children := [1]\<rparr>) \<noteq> []"
  by (simp add: createElement_def addParent_def Let_def Element_default_def Flexer_init_def)

text \<open>
  Claim C10, amended. A call of \<^verbatim>\<open>createElement\<close> that returns, for an \<open>el\<close> whose parent
  is not the identity that the call allocates (so for every parent that is 0 or an
  element created before), stores under the identity it returns an element whose
  \<open>children\<close> sequence is empty whatever \<open>children el\<close> holds: only bounds, axis,
  proportion, border and spacing are copied, and the parent is stamped by
  \<^verbatim>\<open>addParent\<close>. The returned identity is the counter, which the call increments; so
  the calls made on a fresh engine return 1, 2, 3, ... in strictly increasing order (the
  64-bit counter does not wrap in fewer than \<open>2 ^ 64\<close> calls).
\<close>

theorem createElement_children_empty_ids_increasing:
  "(createElement el st = Inr (i, st') \<and> parent el \<noteq> m_globalID st \<longrightarrow>
      i = m_globalID st \<and> m_globalID st' = i + 1 \<and>
      (\<exists>new. m_elements st' i = Some new \<and> children new = [] \<and> parent new = parent el \<and>
         bounds new = bounds el \<and> axis new = axis el \<and> proportion new = proportion el \<and>
         border new = border el \<and> spacing new = spacing el)) \<and>
   (createElements els Flexer_init = Inr (ids, st'') \<and> length els < 2 ^ 64 \<longrightarrow>
      ids = map (\<lambda>k. 1 + of_nat k) [0..<length els] \<and> sorted_wrt (<) ids)"
proof (intro conjI impI)
  assume h: "createElement el st = Inr (i, st') \<and> parent el \<noteq> m_globalID st"
  then show "i = m_globalID st" and "m_globalID st' = i + 1"
    using createElement_id [of el st i st'] by simp_all
  from h show "\<exists>new. m_elements st' i = Some new \<and> children new = [] \<and> parent new = parent el \<and>
         bounds new = bounds el \<and> axis new = axis el \<and> proportion new = proportion el \<and>
         border new = border el \<and> spacing new = spacing el"
    by (auto simp: createElement_def addParent_def Let_def Element_default_def
          split: if_splits option.splits)
next
  assume h: "createElements els Flexer_init = Inr (ids, st'') \<and> length els < 2 ^ 64"
  then show ids: "ids = map (\<lambda>k. 1 + of_nat k) [0..<length els]"
    using createElements_ids [of els Flexer_init ids st''] by (simp add: Flexer_init_def)
  from h show "sorted_wrt (<) ids"
    unfolding ids by (intro sorted_ids_from_one) simp
qed

theorem createElement_children_empty_ids_increasing_witness:
  "\<exists>st' st''.
     createElement (Element_default\<lparr>children := [5, 6]\<rparr>) Flexer_init = Inr (1, st') \<and>
     parent (Element_default\<lparr>children := [5, 6]\<rparr>) \<noteq> m_globalID Flexer_init \<and>
     m_globalID st' = 2 \<and>
     (\<exists>new. m_elements st' 1 = Some new \<and> children new = []) \<and>
     createElements [Element_default\<lparr>children := [5, 6]\<rparr>, Element_default\<lparr>parent := 1\<rparr>]
       Flexer_init = Inr ([1, 2], st'') \<and>
     sorted_wrt (<) [1, 2 :: EID]"
proof -
  let ?e = "Element_default\<lparr>children := [5, 6]\<rparr>"
  obtain st' where c1: "createElement ?e Flexer_init = Inr (1, st')"
    by (simp add: createElement_def addParent_def Let_def Element_default_def Flexer_init_def)
  obtain st'' where
    c2: "createElements [?e, Element_default\<lparr>parent := 1\<rparr>] Flexer_init = Inr ([1, 2 :: EID], st'')"
    by (simp add: createElement_def addParent_def Let_def Element_default_def Flexer_init_def)
  have p: "parent ?e \<noteq> m_globalID Flexer_init"
    by (simp add: Element_default_def Flexer_init_def)
  have l: "length [?e, Element_default\<lparr>parent := 1\<rparr>] < 2 ^ 64" by simp
  from createElement_children_empty_ids_increasing
         [of ?e Flexer_init 1 st' "[?e, Element_default\<lparr>parent := 1\<rparr>]" "[1, 2]" st''] c1 c2 p l
  show ?thesis by auto
qed

section \<open>The accessor \<^verbatim>\<open>getElementRect\<close>\<close>

lemma getElementRect_frame:
  "getElementRect eid st = (r, st') \<Longrightarrow>
     m_elements st' = m_elements st \<and> m_globalID st' = m_globalID st \<and>
     r = (case m_elementLayoutRects st eid of Some v \<Rightarrow> v | None \<Rightarrow> Rect_default) \<and>
     m_elementLayoutRects st' eid = Some r \<and>
     (\<forall>k. k \<noteq> eid \<longrightarrow> m_elementLayoutRects st' k = m_elementLayoutRects st k) \<and>
     (m_elementLayoutRects st eid \<noteq> None \<longrightarrow> st' = st)"
  by (auto simp: getElementRect_def rectAt_def split: option.splits)

text \<open>
  Claim C8. \<^verbatim>\<open>getElementRect\<close> returns the stored rectangle, or the default one for an
  identity without an entry, and runs no layout; but it reads through
  \<^verbatim>\<open>operator[]\<close>, so on an engine where identity 7 has no rectangle (here the fresh
  engine) the call leaves a new entry \<open>7 \<mapsto> Rect_default\<close> in the rectangle map: the map
  after the call differs from the map before it.
\<close>

theorem getElementRect_inserts_default:
  "getElementRect 7 Flexer_init =
     (Rect_default, Flexer_init\<lparr>m_elementLayoutRects := [7 \<mapsto> Rect_default]\<rparr>) \<and>
   m_elementLayoutRects Flexer_init 7 = None \<and>
   m_elementLayoutRects (snd (getElementRect 7 Flexer_init)) 7 = Some Rect_default \<and>
   m_elementLayoutRects (snd (getElementRect 7 Flexer_init)) \<noteq> m_elementLayoutRects Flexer_init"
proof -
  have a: "getElementRect 7 Flexer_init =
     (Rect_default, Flexer_init\<lparr>m_elementLayoutRects := [7 \<mapsto> Rect_default]\<rparr>)"
    by (simp add: getElementRect_def rectAt_def Flexer_init_def)
  have b: "m_elementLayoutRects Flexer_init 7 = None"
    by (simp add: Flexer_init_def)
  have c: "m_elementLayoutRects (snd (getElementRect 7 Flexer_init)) 7 = Some Rect_default"
    by (simp add: a)
  from b c have "m_elementLayoutRects (snd (getElementRect 7 Flexer_init)) \<noteq>
      m_elementLayoutRects Flexer_init"
    by (metis option.distinct(1))
  with a b c show ?thesis by simp
qed

section \<open>The proportional divisor\<close>

lemma sumProportions_all_fixed:
  "sumProportions els es acc = Inr t \<Longrightarrow>
   (\<forall>e\<in>set es. \<forall>c. els e = Some c \<longrightarrow> proportion c = 0) \<Longrightarrow> t = acc"
  by (induction es arbitrary: acc) (auto split: option.splits)

lemma c_div_one: "c_div a 1 = a"
  by (simp add: c_div_def)

text \<open>
  Claim C5. The divisor that \<^verbatim>\<open>performContainerLayout\<close> computes for a container is
  positive as an \<^verbatim>\<open>int\<close>, hence never zero; it is 1 whenever the accumulated sum of the
  children's proportions is 0 or less, in particular when every child is fixed-size
  (proportion 0), and dividing by it then returns the dividend.
\<close>

theorem totalProportions_guard:
  "totalProportions els es = Inr tp \<Longrightarrow>
     0 < sint tp \<and> tp \<noteq> 0 \<and>
     (\<forall>t. sumProportions els es 0 = Inr t \<and> sint t \<le> 0 \<longrightarrow> tp = 1 \<and> c_div a tp = a) \<and>
     ((\<forall>e\<in>set es. \<forall>c. els e = Some c \<longrightarrow> proportion c = 0) \<longrightarrow> tp = 1)"
proof -
  assume h: "totalProportions els es = Inr tp"
  then obtain t where t: "sumProportions els es 0 = Inr t"
    and tp: "tp = (if sint t \<le> 0 then 1 else t)"
    by (auto simp: totalProportions_def split: sum.splits)
  have pos: "0 < sint tp" using tp by auto
  then have nz: "tp \<noteq> 0" by auto
  have fixed: "(\<forall>e\<in>set es. \<forall>c. els e = Some c \<longrightarrow> proportion c = 0) \<longrightarrow> tp = 1"
    using sumProportions_all_fixed [OF t] tp by auto
  from pos nz fixed t tp show ?thesis by (auto simp: c_div_one)
qed

theorem totalProportions_guard_witness:
  "totalProportions
     [2 \<mapsto> Element_default\<lparr>proportion := 0\<rparr>, 3 \<mapsto> Element_default\<lparr>proportion := 0\<rparr>] [2, 3] =
     Inr 1 \<and>
   sumProportions
     [2 \<mapsto> Element_default\<lparr>proportion := 0\<rparr>, 3 \<mapsto> Element_default\<lparr>proportion := 0\<rparr>] [2, 3] 0 =
     Inr 0 \<and>
   sint (0 :: c_int) \<le> 0 \<and> 0 < sint (1 :: c_int) \<and> c_div 300 1 = 300"
proof -
  let ?els = "[2 \<mapsto> Element_default\<lparr>proportion := 0\<rparr>,
               3 \<mapsto> Element_default\<lparr>proportion := 0\<rparr>] :: EID \<rightharpoonup> Element"
  have s: "sumProportions ?els [2, 3] 0 = Inr 0" by simp
  have h: "totalProportions ?els [2, 3] = Inr 1" by (simp add: totalProportions_def)
  from totalProportions_guard [OF h, of 300] s show ?thesis using h by auto
qed

section \<open>The layout pass: an invariant rule for the loop, and the registry\<close>

text \<open>
  A Hoare-style rule for the third loop: a property \<open>I\<close> of the remaining children, the
  cursor and the engine that holds at the start and is kept by one iteration (store the
  child's rectangle, lay the child out) holds when the loop ends.
\<close>

lemma layoutChildren_rule:
  assumes run: "layoutChildren rec el sz tp es pb st = Inr st'"
    and init: "I es pb st"
    and step: "\<And>e es' pb s c ret pb' s2.
      I (e # es') pb s \<Longrightarrow> getElement e s = Some c \<Longrightarrow>
      placeChild el sz tp (e \<noteq> last (children el)) c pb = (ret, pb') \<Longrightarrow>
      rec e (s\<lparr>m_elementLayoutRects := (m_elementLayoutRects s)(e \<mapsto> ret)\<rparr>) = Inr s2 \<Longrightarrow>
      I es' pb' s2"
  shows "\<exists>pb'. I [] pb' st'"
  using run init
proof (induction es arbitrary: pb st)
  case Nil
  then show ?case by auto
next
  case (Cons e es)
  from Cons.prems(1) obtain c where c: "getElement e st = Some c"
    by (auto split: option.splits)
  obtain ret pb' where pc: "placeChild el sz tp (e \<noteq> last (children el)) c pb = (ret, pb')"
    by (cases "placeChild el sz tp (e \<noteq> last (children el)) c pb") auto
  from Cons.prems(1) c pc obtain s2 where
    r: "rec e (st\<lparr>m_elementLayoutRects := (m_elementLayoutRects st)(e \<mapsto> ret)\<rparr>) = Inr s2" and
    rest: "layoutChildren rec el sz tp es pb' s2 = Inr st'"
    by (auto split: sum.splits)
  from step [OF Cons.prems(2) c pc r] have "I es pb' s2" .
  from Cons.IH [OF rest this] show ?case .
qed

lemma layoutChildren_registry:
  assumes run: "layoutChildren rec el sz tp es pb st = Inr st'"
    and rec: "\<And>e s s'. rec e s = Inr s' \<Longrightarrow>
       m_elements s' = m_elements s \<and> m_globalID s' = m_globalID s"
  shows "m_elements st' = m_elements st \<and> m_globalID st' = m_globalID st"
proof -
  let ?I = "\<lambda>(es :: EID list) (pb :: Rect) s. m_elements s = m_elements st \<and> m_globalID s = m_globalID st"
  have "\<exists>pb'. ?I [] pb' st'"
  proof (rule layoutChildren_rule [where I = ?I, OF run])
    show "?I es pb st" by simp
  next
    fix e es' pb s c ret pb' s2
    assume "?I (e # es') pb s"
      and "rec e (s\<lparr>m_elementLayoutRects := (m_elementLayoutRects s)(e \<mapsto> ret)\<rparr>) = Inr s2"
    then show "?I es' pb' s2" using rec by fastforce
  qed
  then show ?thesis by simp
qed

lemma rectAt_registry:
  "rectAt eid st = (r, st') \<Longrightarrow> m_elements st' = m_elements st \<and> m_globalID st' = m_globalID st"
  by (auto simp: rectAt_def split: option.splits)

lemma seedRoot_registry [simp]:
  "m_elements (seedRoot eid el st) = m_elements st"
  "m_globalID (seedRoot eid el st) = m_globalID st"
  by (simp_all add: seedRoot_def)

text \<open>
  The three ways in which a pass returns: the identity is not registered, the element has
  no children, or the element is a container whose loop over the children returns.
\<close>

lemma performContainerLayout_Suc_cases:
  assumes "performContainerLayout (Suc n) eid st = Inr st'"
  obtains (absent) "getElement eid st = None" "st' = st"
  | (leaf) el where "getElement eid st = Some el" "children el = []" "st' = seedRoot eid el st"
  | (container) el tp r st2 pb where
      "getElement eid st = Some el" "children el \<noteq> []"
      "totalProportions (m_elements st) (children el) = Inr tp"
      "rectAt eid (seedRoot eid el st) = (r, st2)"
      "reserveFixed (m_elements st) (axis el) (children el) r = Inr pb"
      "layoutChildren (performContainerLayout n) el (layoutSize el pb) tp (children el) pb st2
         = Inr st'"
proof (cases "getElement eid st")
  case None
  with assms have "st' = st" by simp
  with None show ?thesis by (rule absent)
next
  case (Some el)
  show ?thesis
  proof (cases "children el = []")
    case True
    with assms Some have "st' = seedRoot eid el st"
      by (simp add: Let_def split: sum.splits)
    with Some True show ?thesis by (rule leaf)
  next
    case False
    obtain r st2 where ra: "rectAt eid (seedRoot eid el st) = (r, st2)"
      by (cases "rectAt eid (seedRoot eid el st)") auto
    from rectAt_registry [OF ra] have reg: "m_elements st2 = m_elements st" by simp
    from assms Some False ra reg obtain tp pb where
      t: "totalProportions (m_elements st) (children el) = Inr tp" and
      f: "reserveFixed (m_elements st) (axis el) (children el) r = Inr pb" and
      l: "layoutChildren (performContainerLayout n) el (layoutSize el pb) tp (children el) pb st2
         = Inr st'"
      by (simp add: Let_def split: sum.splits)
    from Some False t ra f l show ?thesis by (rule container)
  qed
qed

lemma performContainerLayout_registry:
  "performContainerLayout n eid st = Inr st' \<Longrightarrow>
     m_elements st' = m_elements st \<and> m_globalID st' = m_globalID st"
proof (induction n arbitrary: eid st st')
  case 0
  then show ?case by simp
next
  case (Suc n)
  from Suc.prems show ?case
  proof (cases rule: performContainerLayout_Suc_cases)
    case absent
    then show ?thesis by simp
  next
    case (leaf el)
    then show ?thesis by simp
  next
    case (container el tp r st2 pb)
    from layoutChildren_registry [OF container(6)] Suc.IH
    have "m_elements st' = m_elements st2 \<and> m_globalID st' = m_globalID st2" by blast
    with rectAt_registry [OF container(4)] show ?thesis by simp
  qed
qed

lemma rectAt_other:
  "rectAt eid st = (r, st') \<Longrightarrow>
     m_elementLayoutRects st' eid = Some r \<and>
     (m_elementLayoutRects st eid \<noteq> None \<longrightarrow> st' = st) \<and>
     (\<forall>k. k \<noteq> eid \<longrightarrow> m_elementLayoutRects st' k = m_elementLayoutRects st k)"
  by (auto simp: rectAt_def split: option.splits)

text \<open>
  A root keeps (or gets) its stored bounds: whenever a pass stores over the rectangle of
  an element with \<^verbatim>\<open>parent == 0\<close>, the recursive call that follows seeds it again.
\<close>

lemma performContainerLayout_root_rect:
  "performContainerLayout n eid st = Inr st' \<Longrightarrow>
   m_elements st r = Some el \<Longrightarrow> parent el = 0 \<Longrightarrow>
   eid = r \<or> m_elementLayoutRects st r = Some (bounds el) \<Longrightarrow>
   m_elementLayoutRects st' r = Some (bounds el)"
proof (induction n arbitrary: eid st st')
  case 0
  then show ?case by simp
next
  case (Suc n)
  note root = Suc.prems(2,3)
  from Suc.prems(1) show ?case
  proof (cases rule: performContainerLayout_Suc_cases)
    case absent
    with Suc.prems show ?thesis by (auto simp: getElement_def)
  next
    case (leaf el')
    with Suc.prems show ?thesis by (auto simp: getElement_def seedRoot_def)
  next
    case (container el' tp r' st2 pb)
    have seeded: "m_elementLayoutRects (seedRoot eid el' st) r = Some (bounds el)"
      using container(1) Suc.prems(2-4) by (auto simp: getElement_def seedRoot_def)
    with rectAt_other [OF container(4)]
    have st2: "m_elementLayoutRects st2 r = Some (bounds el)"
      by (cases "r = eid") auto
    have reg2: "m_elements st2 = m_elements st"
      using rectAt_registry [OF container(4)] by simp
    let ?I = "\<lambda>(es :: EID list) (pb :: Rect) s.
       m_elements s = m_elements st \<and> m_elementLayoutRects s r = Some (bounds el)"
    have "\<exists>pb'. ?I [] pb' st'"
    proof (rule layoutChildren_rule [where I = ?I, OF container(6)])
      show "?I (children el') pb st2" using st2 reg2 by simp
    next
      fix e es' pb s c ret pb' s2
      assume I: "?I (e # es') pb s"
        and rec: "performContainerLayout n e
           (s\<lparr>m_elementLayoutRects := (m_elementLayoutRects s)(e \<mapsto> ret)\<rparr>) = Inr s2"
      from performContainerLayout_registry [OF rec] I
      have reg: "m_elements s2 = m_elements st" by simp
      have "m_elementLayoutRects s2 r = Some (bounds el)"
        by (rule Suc.IH [OF rec]) (use I root in auto)
      with reg show "?I es' pb' s2" by simp
    qed
    then show ?thesis by simp
  qed
qed

text \<open>The result of a pass does not depend on the bound, once the bound suffices.\<close>

lemma layoutChildren_mono:
  assumes run: "layoutChildren rec el sz tp es pb st = Inr st'"
    and rec: "\<And>e s s'. rec e s = Inr s' \<Longrightarrow> rec' e s = Inr s'"
  shows "layoutChildren rec' el sz tp es pb st = Inr st'"
  using run
proof (induction es arbitrary: pb st)
  case Nil
  then show ?case by simp
next
  case (Cons e es)
  from Cons.prems obtain c where c: "getElement e st = Some c"
    by (auto split: option.splits)
  obtain ret pb' where pc: "placeChild el sz tp (e \<noteq> last (children el)) c pb = (ret, pb')"
    by (cases "placeChild el sz tp (e \<noteq> last (children el)) c pb") auto
  from Cons.prems c pc obtain s2 where
    r: "rec e (st\<lparr>m_elementLayoutRects := (m_elementLayoutRects st)(e \<mapsto> ret)\<rparr>) = Inr s2" and
    rest: "layoutChildren rec el sz tp es pb' s2 = Inr st'"
    by (auto split: sum.splits)
  from rec [OF r] Cons.IH [OF rest] c pc show ?case by simp
qed

lemma performContainerLayout_Suc_mono:
  "performContainerLayout n eid st = Inr st' \<Longrightarrow> performContainerLayout (Suc n) eid st = Inr st'"
proof (induction n arbitrary: eid st st')
  case 0
  then show ?case by simp
next
  case (Suc n)
  from Suc.prems show ?case
  proof (cases rule: performContainerLayout_Suc_cases)
    case absent
    then show ?thesis by simp
  next
    case (leaf el)
    then show ?thesis by (simp add: totalProportions_def)
  next
    case (container el tp r st2 pb)
    have "layoutChildren (performContainerLayout (Suc n)) el (layoutSize el pb) tp (children el) pb st2 = Inr st'"
      by (rule layoutChildren_mono [OF container(6)]) (rule Suc.IH)
    moreover have "m_elements st2 = m_elements st"
      using rectAt_registry [OF container(4)] by simp
    ultimately show ?thesis using container(1-5) by (simp add: Let_def)
  qed
qed

lemma performContainerLayout_mono:
  "performContainerLayout n eid st = Inr st' \<Longrightarrow> n \<le> m \<Longrightarrow>
   performContainerLayout m eid st = Inr st'"
  by (induction m) (auto simp: le_Suc_eq dest: performContainerLayout_Suc_mono simp del: performContainerLayout.simps)

section \<open>Well-formed engines\<close>

text \<open>
  The fresh engine is well-formed, and \<^verbatim>\<open>createElement\<close> keeps an engine well-formed when
  the parent it is given is not the identity it allocates (a call that returns has then
  found the parent registered) and the counter does not wrap.
\<close>

lemma wellFormed_init: "wellFormed Flexer_init"
  by (simp add: wellFormed_def Flexer_init_def)

lemma EID_less_inc_self: "(g :: EID) + 1 \<noteq> 0 \<Longrightarrow> g < g + 1"
  by (metis add_neg_numeral_special(8) inc_less_eq_self_iff_eq verit_comp_simplify1(3))

lemma EID_less_inc: "(g :: EID) + 1 \<noteq> 0 \<Longrightarrow> p \<le> g \<Longrightarrow> p < g + 1"
  using EID_less_inc_self [of g] by simp

lemma wellFormedD:
  assumes "wellFormed st" "m_elements st p = Some el"
  shows "p \<noteq> 0" "p < m_globalID st" "sorted_wrt (<) (children el)"
    "\<And>c. c \<in> set (children el) \<Longrightarrow> p < c \<and> (\<exists>ec. m_elements st c = Some ec \<and> parent ec = p)"
  using assms unfolding wellFormed_def by blast+

lemma createElement_wellFormed:
  assumes wf: "wellFormed st"
    and cr: "createElement el st = Inr (i, st')"
    and par: "parent el \<noteq> m_globalID st"
    and nowrap: "m_globalID st + 1 \<noteq> 0"
  shows "wellFormed st'"
proof -
  let ?g = "m_globalID st"
  let ?new = "Element_default\<lparr>bounds := bounds el, axis := axis el, proportion := proportion el,
                   border := border el, spacing := spacing el\<rparr>"
  have g0: "?g \<noteq> 0" using wf by (simp add: wellFormed_def)
  have gid: "m_globalID st' = ?g + 1" using createElement_id [OF cr] by simp
  have below: "p < ?g + 1" if "m_elements st p = Some e" for p e
    using wellFormedD(2) [OF wf that] nowrap by (intro EID_less_inc) auto
  have fresh: "m_elements st ?g = None"
  proof (cases "m_elements st ?g")
    case (Some e)
    from wellFormedD(2) [OF wf Some] show ?thesis by simp
  qed simp
  show ?thesis
  proof (cases "parent el = 0")
    case True
    with cr have els: "m_elements st' = (m_elements st)(?g \<mapsto> ?new)"
      by (auto simp: createElement_def addParent_def Let_def)
    show ?thesis
      unfolding wellFormed_def
    proof (intro conjI allI impI)
      show "m_globalID st' \<noteq> 0" using gid nowrap by simp
    next
      fix p e assume pe: "m_elements st' p = Some e"
      show "p \<noteq> 0" using pe els g0 wellFormedD(1) [OF wf] by (auto split: if_splits)
      show "p < m_globalID st'"
        using pe els gid below nowrap EID_less_inc [of ?g ?g] by (auto split: if_splits)
      show "sorted_wrt (<) (children e)"
        using pe els wellFormedD(3) [OF wf] by (auto simp: Element_default_def split: if_splits)
      show "\<forall>c\<in>set (children e). p < c \<and> (\<exists>ec. m_elements st' c = Some ec \<and> parent ec = p)"
      proof
        fix c assume c: "c \<in> set (children e)"
        with pe els have p: "p \<noteq> ?g" "m_elements st p = Some e"
          by (auto simp: Element_default_def split: if_splits)
        from wellFormedD(4) [OF wf p(2) c] obtain ec where
          "p < c" "m_elements st c = Some ec" "parent ec = p" by blast
        moreover from this fresh have "c \<noteq> ?g" by auto
        ultimately show "p < c \<and> (\<exists>ec. m_elements st' c = Some ec \<and> parent ec = p)"
          using els by simp
      qed
    qed
  next
    case False
    let ?q = "parent el"
    from cr False par obtain pe where q: "m_elements st ?q = Some pe"
      and els: "m_elements st' =
         (m_elements st)(?g \<mapsto> ?new\<lparr>parent := ?q\<rparr>, ?q \<mapsto> pe\<lparr>children := children pe @ [?g]\<rparr>)"
      by (auto simp: createElement_def addParent_def Let_def split: option.splits if_splits)
    have qg: "?q < ?g" using wellFormedD(2) [OF wf q] .
    show ?thesis
      unfolding wellFormed_def
    proof (intro conjI allI impI)
      show "m_globalID st' \<noteq> 0" using gid nowrap by simp
    next
      fix p e assume pe': "m_elements st' p = Some e"
      show "p \<noteq> 0"
        using pe' els g0 wellFormedD(1) [OF wf] \<open>parent el \<noteq> 0\<close>
        by (auto split: if_splits)
      show "p < m_globalID st'"
        using pe' els gid below nowrap EID_less_inc [of ?g ?g] q by (auto split: if_splits)
      show "sorted_wrt (<) (children e)"
      proof (cases "p = ?q")
        case True
        with pe' els have e: "children e = children pe @ [?g]" by auto
        have "c < ?g" if "c \<in> set (children pe)" for c
          using wellFormedD(4) [OF wf q that] wellFormedD(2) [OF wf] by blast
        with wellFormedD(3) [OF wf q] e show ?thesis by (simp add: sorted_wrt_append)
      next
        case False
        with pe' els wellFormedD(3) [OF wf] show ?thesis
          by (auto simp: Element_default_def split: if_splits)
      qed
      show "\<forall>c\<in>set (children e). p < c \<and> (\<exists>ec. m_elements st' c = Some ec \<and> parent ec = p)"
      proof
        fix c assume c: "c \<in> set (children e)"
        have old: "p' < c' \<and> (\<exists>ec. m_elements st' c' = Some ec \<and> parent ec = p')"
          if p': "m_elements st p' = Some e'" and c': "c' \<in> set (children e')" for p' e' c'
        proof -
          from wellFormedD(4) [OF wf p' c'] obtain ec where
            ec: "p' < c'" "m_elements st c' = Some ec" "parent ec = p'" by blast
          from ec fresh have "c' \<noteq> ?g" by auto
          with ec els show ?thesis by (cases "c' = ?q") (use q in auto)
        qed
        show "p < c \<and> (\<exists>ec. m_elements st' c = Some ec \<and> parent ec = p)"
        proof (cases "p = ?q")
          case True
          with pe' els have e: "children e = children pe @ [?g]" by auto
          show ?thesis
          proof (cases "c = ?g")
            case True
            with \<open>p = ?q\<close> qg els par show ?thesis by auto
          next
            case False
            with c e have "c \<in> set (children pe)" by simp
            from old [OF q this] \<open>p = ?q\<close> show ?thesis by simp
          qed
        next
          case False
          with pe' els c have "m_elements st p = Some e"
            by (auto simp: Element_default_def split: if_splits)
          from old [OF this c] show ?thesis .
        qed
      qed
    qed
  qed
qed

text \<open>
  Changing the layout parameters of a registered element, as a caller does through the
  pointer that \<^verbatim>\<open>getElement\<close> returns, keeps an engine well-formed.
\<close>

lemma wellFormed_set_parameters:
  assumes "wellFormed st" and "m_elements st p = Some el"
  shows "wellFormed (st\<lparr>m_elements := (m_elements st)
           (p \<mapsto> el\<lparr>bounds := b, proportion := pr, border := bo, spacing := sp, axis := ax\<rparr>)\<rparr>)"
  unfolding wellFormed_def
proof (intro conjI allI impI)
  let ?st' = "st\<lparr>m_elements := (m_elements st)
           (p \<mapsto> el\<lparr>bounds := b, proportion := pr, border := bo, spacing := sp, axis := ax\<rparr>)\<rparr>"
  show "m_globalID ?st' \<noteq> 0" using assms(1) by (simp add: wellFormed_def)
  fix q e assume q: "m_elements ?st' q = Some e"
  then obtain e0 where e0: "m_elements st q = Some e0" "children e = children e0"
    using assms(2) by (cases "q = p") auto
  show "q \<noteq> 0" "q < m_globalID ?st'" "sorted_wrt (<) (children e)"
    using wellFormedD(1-3) [OF assms(1) e0(1)] e0(2) by simp_all
  show "\<forall>c\<in>set (children e). q < c \<and> (\<exists>ec. m_elements ?st' c = Some ec \<and> parent ec = q)"
  proof
    fix c assume "c \<in> set (children e)"
    with wellFormedD(4) [OF assms(1) e0(1), of c] e0(2) obtain ec where
      ec: "q < c" "m_elements st c = Some ec" "parent ec = q" by auto
    show "q < c \<and> (\<exists>ec. m_elements ?st' c = Some ec \<and> parent ec = q)"
    proof (cases "c = p")
      case True
      with ec assms(2) show ?thesis by simp
    next
      case False
      with ec show ?thesis by simp
    qed
  qed
qed

section \<open>The pass returns on well-formed engines\<close>

lemma wellFormed_cong:
  "wellFormed st \<Longrightarrow> m_elements st' = m_elements st \<Longrightarrow> m_globalID st' = m_globalID st \<Longrightarrow>
   wellFormed st'"
  by (simp add: wellFormed_def)

lemma sumProportions_ok:
  "\<forall>e\<in>set es. els e \<noteq> None \<Longrightarrow> \<exists>t. sumProportions els es acc = Inr t"
  by (induction es arbitrary: acc) (auto split: option.splits)

lemma totalProportions_ok:
  "\<forall>e\<in>set es. els e \<noteq> None \<Longrightarrow> \<exists>tp. totalProportions els es = Inr tp"
  using sumProportions_ok [of es els 0] by (auto simp: totalProportions_def)

lemma reserveFixed_ok:
  "\<forall>e\<in>set es. els e \<noteq> None \<Longrightarrow> \<exists>pb. reserveFixed els ax es r = Inr pb"
  by (induction es arbitrary: r) (auto simp: Let_def split: option.splits)

lemma layoutChildren_ok:
  assumes "\<forall>e\<in>set es. m_elements st e \<noteq> None"
    and "\<And>e s. e \<in> set es \<Longrightarrow> m_elements s = m_elements st \<Longrightarrow>
           m_globalID s = m_globalID st \<Longrightarrow> \<exists>s'. rec e s = Inr s'"
    and "\<And>e s s'. rec e s = Inr s' \<Longrightarrow>
           m_elements s' = m_elements s \<and> m_globalID s' = m_globalID s"
  shows "\<exists>st'. layoutChildren rec el sz tp es pb st = Inr st'"
  using assms(1,2)
proof (induction es arbitrary: pb st)
  case Nil
  then show ?case by simp
next
  case (Cons e es)
  from Cons.prems(1) obtain c where c: "getElement e st = Some c"
    by (auto simp: getElement_def)
  obtain ret pb' where pc: "placeChild el sz tp (e \<noteq> last (children el)) c pb = (ret, pb')"
    by (cases "placeChild el sz tp (e \<noteq> last (children el)) c pb") auto
  let ?s1 = "st\<lparr>m_elementLayoutRects := (m_elementLayoutRects st)(e \<mapsto> ret)\<rparr>"
  from Cons.prems(2) [of e ?s1] obtain s2 where s2: "rec e ?s1 = Inr s2" by auto
  from assms(3) [OF s2] have reg: "m_elements s2 = m_elements st" "m_globalID s2 = m_globalID st"
    by simp_all
  have "\<exists>st'. layoutChildren rec el sz tp es pb' s2 = Inr st'"
  proof (rule Cons.IH)
    show "\<forall>e\<in>set es. m_elements s2 e \<noteq> None" using Cons.prems(1) reg by simp
    show "\<exists>s'. rec e' s = Inr s'"
      if "e' \<in> set es" "m_elements s = m_elements s2" "m_globalID s = m_globalID s2" for e' s
      using Cons.prems(2) [of e' s] that reg by simp
  qed
  with c pc s2 show ?case by simp
qed

text \<open>
  In a well-formed engine children are younger than their container and all identities
  are below the counter, so the recursion is at most as deep as the distance from the
  identity to the counter.
\<close>

lemma performContainerLayout_terminates:
  "wellFormed st \<Longrightarrow> unat (m_globalID st) - unat eid < n \<Longrightarrow>
   \<exists>st'. performContainerLayout n eid st = Inr st'"
proof (induction n arbitrary: eid st)
  case 0
  then show ?case by simp
next
  case (Suc n)
  show ?case
  proof (cases "getElement eid st")
    case None
    then show ?thesis by simp
  next
    case (Some el)
    then have el: "m_elements st eid = Some el" by (simp add: getElement_def)
    have kids: "\<forall>e\<in>set (children el). m_elements st e \<noteq> None"
      using wellFormedD(4) [OF Suc.prems(1) el] by auto
    from totalProportions_ok [OF kids] obtain tp where
      tp: "totalProportions (m_elements st) (children el) = Inr tp" by blast
    show ?thesis
    proof (cases "children el = []")
      case True
      with Some tp show ?thesis by (simp add: Let_def)
    next
      case False
      obtain r st2 where ra: "rectAt eid (seedRoot eid el st) = (r, st2)"
        by (cases "rectAt eid (seedRoot eid el st)") auto
      from rectAt_registry [OF ra] have reg2: "m_elements st2 = m_elements st"
        "m_globalID st2 = m_globalID st" by simp_all
      from reserveFixed_ok [OF kids] obtain pb where
        pb: "reserveFixed (m_elements st) (axis el) (children el) r = Inr pb" by blast
      have "\<exists>st'. layoutChildren (performContainerLayout n) el (layoutSize el pb) tp
              (children el) pb st2 = Inr st'"
      proof (rule layoutChildren_ok)
        show "\<forall>e\<in>set (children el). m_elements st2 e \<noteq> None" using kids reg2 by simp
      next
        fix e and s :: Flexer
        assume e: "e \<in> set (children el)" and s: "m_elements s = m_elements st2"
          "m_globalID s = m_globalID st2"
        from wellFormedD(4) [OF Suc.prems(1) el e] obtain ec where
          lt: "eid < e" and ec: "m_elements st e = Some ec" by blast
        from wellFormedD(2) [OF Suc.prems(1) ec] have "e < m_globalID st" .
        with lt Suc.prems(2) have m: "unat (m_globalID s) - unat e < n"
          using s reg2 by (simp add: word_less_nat_alt)
        have wf: "wellFormed s"
          using Suc.prems(1) s reg2 by (simp add: wellFormed_def)
        from Suc.IH [OF wf m] show "\<exists>s'. performContainerLayout n e s = Inr s'" .
      next
        fix e and s s' :: Flexer assume "performContainerLayout n e s = Inr s'"
        then show "m_elements s' = m_elements s \<and> m_globalID s' = m_globalID s"
          by (rule performContainerLayout_registry)
      qed
      with Some tp False ra pb reg2 show ?thesis by (auto simp: Let_def)
    qed
  qed
qed

lemma performLayout_terminates:
  "wellFormed st \<Longrightarrow> \<exists>st'. performLayout (Suc (unat (m_globalID st))) st = Inr st'"
  unfolding performLayout_def by (rule performContainerLayout_terminates) simp_all

section \<open>Evaluating the example engines\<close>

lemmas layout_eval =
  createElement_def addParent_def Let_def Element_default_def Flexer_init_def performLayout_def
  getElement_def seedRoot_def rectAt_def totalProportions_def layoutSize_def placeChild_def
  c_div_def signed_divide_int_def Rect_default_def

lemma engine_two_roots_created:
  "createElements
     [Element_default\<lparr>bounds := \<lparr>x = 0, y = 0, width = 300, height = 100\<rparr>\<rparr>,
      Element_default\<lparr>bounds := \<lparr>x = 5, y = 5, width = 50, height = 50\<rparr>\<rparr>] Flexer_init =
     Inr ([1, 2], engine_two_roots)"
  by (simp add: layout_eval engine_two_roots_def)

lemma engine_fixed_stretch_created:
  "createElements
     [Element_default\<lparr>bounds := \<lparr>x = 0, y = 0, width = 300, height = 100\<rparr>,
        border := 0, spacing := 0\<rparr>,
      Element_default\<lparr>parent := 1, bounds := \<lparr>x = 0, y = 0, width = 100, height = 0\<rparr>,
        proportion := 0\<rparr>,
      Element_default\<lparr>parent := 1, bounds := \<lparr>x = 0, y = 0, width = 0, height = 0\<rparr>\<rparr>]
     Flexer_init =
     Inr ([1, 2, 3], engine_fixed_stretch)"
  by (auto simp add: layout_eval engine_fixed_stretch_def fun_eq_iff)

lemma engine_fixed_stretch_layout:
  "performLayout 2 engine_fixed_stretch =
   Inr (engine_fixed_stretch\<lparr>m_elementLayoutRects :=
      [1 \<mapsto> \<lparr>x = 0, y = 0, width = 300, height = 100\<rparr>,
       2 \<mapsto> \<lparr>x = 0, y = 0, width = 100, height = 100\<rparr>,
       3 \<mapsto> \<lparr>x = 100, y = 0, width = 200, height = 100\<rparr>]\<rparr>)"
  by (simp add: layout_eval engine_fixed_stretch_def numeral_2_eq_2)

lemma engine_two_roots_layout:
  "performLayout 2 engine_two_roots =
   Inr (engine_two_roots\<lparr>m_elementLayoutRects :=
      [1 \<mapsto> \<lparr>x = 0, y = 0, width = 300, height = 100\<rparr>]\<rparr>)"
  by (simp add: layout_eval engine_two_roots_def numeral_2_eq_2)

lemma engine_detached_child_built:
  "\<exists>st0 e2.
     createElements
       [Element_default\<lparr>bounds := \<lparr>x = 0, y = 0, width = 300, height = 100\<rparr>,
          border := 0, spacing := 0\<rparr>,
        Element_default\<lparr>parent := 1, bounds := \<lparr>x = 7, y = 8, width = 9, height = 10\<rparr>\<rparr>]
       Flexer_init = Inr ([1, 2], st0) \<and>
     getElement 2 st0 = Some e2 \<and>
     engine_detached_child = st0\<lparr>m_elements := (m_elements st0)(2 \<mapsto> e2\<lparr>parent := 0\<rparr>)\<rparr>"
  by (auto simp add: layout_eval engine_detached_child_def fun_eq_iff)

lemma engine_detached_child_layout:
  "performLayout 2 engine_detached_child =
   Inr (engine_detached_child\<lparr>m_elementLayoutRects :=
      [1 \<mapsto> \<lparr>x = 0, y = 0, width = 300, height = 100\<rparr>,
       2 \<mapsto> \<lparr>x = 7, y = 8, width = 9, height = 10\<rparr>]\<rparr>)"
  by (simp add: layout_eval engine_detached_child_def numeral_2_eq_2)

lemma engine_two_roots_wellFormed: "wellFormed engine_two_roots"
  by (auto simp: wellFormed_def engine_two_roots_def Element_default_def split: if_splits)

lemma engine_fixed_stretch_wellFormed: "wellFormed engine_fixed_stretch"
  by (auto simp: wellFormed_def engine_fixed_stretch_def Element_default_def split: if_splits)

lemma engine_offsets_created:
  "createElements
     [Element_default\<lparr>bounds := \<lparr>x = 0, y = 0, width = 100, height = 100\<rparr>,
        border := 0, spacing := 0\<rparr>,
      Element_default\<lparr>parent := 1, bounds := \<lparr>x = 50, y = 0, width = 10, height = 0\<rparr>,
        proportion := 0\<rparr>,
      Element_default\<lparr>parent := 1, bounds := \<lparr>x = 0, y = 0, width = 10, height = 0\<rparr>,
        proportion := 0\<rparr>]
     Flexer_init =
     Inr ([1, 2, 3], engine_offsets)"
  by (auto simp add: layout_eval engine_offsets_def fun_eq_iff)

lemma engine_offsets_layout:
  "performLayout 2 engine_offsets =
   Inr (engine_offsets\<lparr>m_elementLayoutRects :=
      [1 \<mapsto> \<lparr>x = 0, y = 0, width = 100, height = 100\<rparr>,
       2 \<mapsto> \<lparr>x = 50, y = 0, width = 10, height = 100\<rparr>,
       3 \<mapsto> \<lparr>x = 10, y = 0, width = 10, height = 100\<rparr>]\<rparr>)"
  by (simp add: layout_eval engine_offsets_def numeral_2_eq_2)

lemma engine_narrow_created:
  "createElements
     [Element_default\<lparr>bounds := \<lparr>x = 0, y = 0, width = 10, height = 100\<rparr>,
        border := 20, spacing := 0\<rparr>,
      Element_default\<lparr>parent := 1, bounds := \<lparr>x = 0, y = 0, width = 0, height = 0\<rparr>\<rparr>,
      Element_default\<lparr>parent := 1, bounds := \<lparr>x = 0, y = 0, width = 0, height = 0\<rparr>\<rparr>]
     Flexer_init =
     Inr ([1, 2, 3], engine_narrow)"
  by (auto simp add: layout_eval engine_narrow_def fun_eq_iff)

lemma engine_narrow_layout:
  "performLayout 2 engine_narrow =
   Inr (engine_narrow\<lparr>m_elementLayoutRects :=
      [1 \<mapsto> \<lparr>x = 0, y = 0, width = 10, height = 100\<rparr>,
       2 \<mapsto> \<lparr>x = 20, y = 20, width = - 15, height = 60\<rparr>,
       3 \<mapsto> \<lparr>x = 5, y = 20, width = - 15, height = 60\<rparr>]\<rparr>)"
  by (simp add: layout_eval engine_narrow_def numeral_2_eq_2)

section \<open>Frame of a layout pass\<close>

text \<open>
  Claim C9. A call of \<^verbatim>\<open>performLayout\<close> that returns leaves the element registry as it
  was: the same identities are registered, with the same parent, bounds, proportion,
  border, spacing, axis and children; the identity counter is unchanged too, so the
  resulting engine differs from the initial one in the rectangle map only. On a
  well-formed engine the call returns.
\<close>

theorem performLayout_registry_unchanged:
  "(wellFormed st \<longrightarrow> (\<exists>n st'. performLayout n st = Inr st')) \<and>
   (\<forall>n st'. performLayout n st = Inr st' \<longrightarrow>
      m_elements st' = m_elements st \<and> m_globalID st' = m_globalID st \<and>
      (\<forall>eid. getElement eid st' = getElement eid st) \<and>
      st' = st\<lparr>m_elementLayoutRects := m_elementLayoutRects st'\<rparr>)"
proof (intro conjI allI impI)
  assume "wellFormed st"
  then show "\<exists>n st'. performLayout n st = Inr st'"
    using performLayout_terminates by blast
next
  fix n st' assume run: "performLayout n st = Inr st'"
  then have reg: "m_elements st' = m_elements st \<and> m_globalID st' = m_globalID st"
    using performContainerLayout_registry [of n 1 st st'] by (simp add: performLayout_def)
  then show "m_elements st' = m_elements st" and "m_globalID st' = m_globalID st"
    by simp_all
  from reg show "st' = st\<lparr>m_elementLayoutRects := m_elementLayoutRects st'\<rparr>" by simp
  fix eid
  from reg show "getElement eid st' = getElement eid st" by (simp add: getElement_def)
qed

theorem performLayout_registry_unchanged_witness:
  "wellFormed engine_fixed_stretch \<and>
   performLayout 2 engine_fixed_stretch =
     Inr (engine_fixed_stretch\<lparr>m_elementLayoutRects :=
        [1 \<mapsto> \<lparr>x = 0, y = 0, width = 300, height = 100\<rparr>,
         2 \<mapsto> \<lparr>x = 0, y = 0, width = 100, height = 100\<rparr>,
         3 \<mapsto> \<lparr>x = 100, y = 0, width = 200, height = 100\<rparr>]\<rparr>) \<and>
   m_elements (engine_fixed_stretch\<lparr>m_elementLayoutRects :=
        [1 \<mapsto> \<lparr>x = 0, y = 0, width = 300, height = 100\<rparr>,
         2 \<mapsto> \<lparr>x = 0, y = 0, width = 100, height = 100\<rparr>,
         3 \<mapsto> \<lparr>x = 100, y = 0, width = 200, height = 100\<rparr>]\<rparr>) =
     m_elements engine_fixed_stretch \<and>
   (\<exists>n st'. performLayout n engine_fixed_stretch = Inr st')"
proof -
  note inst = performLayout_registry_unchanged [of engine_fixed_stretch]
  from inst engine_fixed_stretch_wellFormed
  have "\<exists>n st'. performLayout n engine_fixed_stretch = Inr st'" by blast
  moreover from inst engine_fixed_stretch_layout
  have "m_elements (engine_fixed_stretch\<lparr>m_elementLayoutRects :=
        [1 \<mapsto> \<lparr>x = 0, y = 0, width = 300, height = 100\<rparr>,
         2 \<mapsto> \<lparr>x = 0, y = 0, width = 100, height = 100\<rparr>,
         3 \<mapsto> \<lparr>x = 100, y = 0, width = 200, height = 100\<rparr>]\<rparr>) =
     m_elements engine_fixed_stretch" by blast
  ultimately show ?thesis
    using engine_fixed_stretch_wellFormed engine_fixed_stretch_layout by blast
qed

section \<open>The concrete scenario\<close>

text \<open>
  Claim C2. A root with bounds (0, 0, 300, 100), horizontal axis, border 0 and spacing
  \<open>s\<close>, created first, and three children of it, each with proportion 1 and stored bounds
  (0, 0, 0, 0): after \<^verbatim>\<open>performLayout\<close> the children have the x-offsets 0, 100, 200, the
  widths \<open>100 - s\<close>, \<open>100 - s\<close>, 100 and the height 100 (the spacing is taken from the width
  of a child that is not the last, and does not shift its successor).
\<close>
theorem performLayout_three_equal_children:
  "\<exists>st. createElements
      [\<lparr>parent = 0, bounds = \<lparr>x = 0, y = 0, width = 300, height = 100\<rparr>, proportion = p0,
         border = 0, spacing = s, children = cs0, axis = Horizontal\<rparr>,
       \<lparr>parent = 1, bounds = \<lparr>x = 0, y = 0, width = 0, height = 0\<rparr>, proportion = 1,
         border = b1, spacing = s1, children = cs1, axis = a1\<rparr>,
       \<lparr>parent = 1, bounds = \<lparr>x = 0, y = 0, width = 0, height = 0\<rparr>, proportion = 1,
         border = b2, spacing = s2, children = cs2, axis = a2\<rparr>,
       \<lparr>parent = 1, bounds = \<lparr>x = 0, y = 0, width = 0, height = 0\<rparr>, proportion = 1,
         border = b3, spacing = s3, children = cs3, axis = a3\<rparr>] Flexer_init =
       Inr ([1, 2, 3, 4], st) \<and>
     performLayout (Suc (Suc n)) st =
       Inr (st\<lparr>m_elementLayoutRects :=
              [1 \<mapsto> \<lparr>x = 0, y = 0, width = 300, height = 100\<rparr>,
               2 \<mapsto> \<lparr>x = 0, y = 0, width = 100 - s, height = 100\<rparr>,
               3 \<mapsto> \<lparr>x = 100, y = 0, width = 100 - s, height = 100\<rparr>,
               4 \<mapsto> \<lparr>x = 200, y = 0, width = 100, height = 100\<rparr>]\<rparr>)"
  by (simp add: layout_eval)

section \<open>Roots\<close>

text \<open>
  Claim C3, as stated, fails: \<^verbatim>\<open>performLayout\<close> starts from identity 1 only. In the
  engine with two roots, the second root (identity 2, bounds (5, 5, 50, 50)) has no
  rectangle after the pass, and \<^verbatim>\<open>getElementRect\<close> answers the default rectangle for it.
\<close>
theorem performLayout_second_root_counterexample:
  "createElements
     [Element_default\<lparr>bounds := \<lparr>x = 0, y = 0, width = 300, height = 100\<rparr>\<rparr>,
      Element_default\<lparr>bounds := \<lparr>x = 5, y = 5, width = 50, height = 50\<rparr>\<rparr>] Flexer_init =
     Inr ([1, 2], engine_two_roots) \<and>
   getElement 2 engine_two_roots =
     Some (Element_default\<lparr>bounds := \<lparr>x = 5, y = 5, width = 50, height = 50\<rparr>\<rparr>) \<and>
   parent (Element_default\<lparr>bounds := \<lparr>x = 5, y = 5, width = 50, height = 50\<rparr>\<rparr>) = 0 \<and>
   performLayout 2 engine_two_roots =
     Inr (engine_two_roots\<lparr>m_elementLayoutRects :=
            [1 \<mapsto> \<lparr>x = 0, y = 0, width = 300, height = 100\<rparr>]\<rparr>) \<and>
   m_elementLayoutRects (engine_two_roots\<lparr>m_elementLayoutRects :=
            [1 \<mapsto> \<lparr>x = 0, y = 0, width = 300, height = 100\<rparr>]\<rparr>) 2 = None \<and>
   fst (getElementRect 2 (engine_two_roots\<lparr>m_elementLayoutRects :=
            [1 \<mapsto> \<lparr>x = 0, y = 0, width = 300, height = 100\<rparr>]\<rparr>)) =
     \<lparr>x = 0, y = 0, width = 100, height = 100\<rparr> \<and>
   \<lparr>x = 0, y = 0, width = 100, height = 100\<rparr> \<noteq>
     bounds (Element_default\<lparr>bounds := \<lparr>x = 5, y = 5, width = 50, height = 50\<rparr>\<rparr>)"
proof -
  have "getElement 2 engine_two_roots =
     Some (Element_default\<lparr>bounds := \<lparr>x = 5, y = 5, width = 50, height = 50\<rparr>\<rparr>)"
    by (simp add: getElement_def engine_two_roots_def)
  moreover have "fst (getElementRect 2 (engine_two_roots\<lparr>m_elementLayoutRects :=
            [1 \<mapsto> \<lparr>x = 0, y = 0, width = 300, height = 100\<rparr>]\<rparr>)) =
     \<lparr>x = 0, y = 0, width = 100, height = 100\<rparr>"
    by (simp add: getElementRect_def rectAt_def Rect_default_def)
  ultimately show ?thesis
    using engine_two_roots_created engine_two_roots_layout
    by (simp add: Element_default_def)
qed

text \<open>
  Claim C3, amended. If the element with identity 1 is a root (\<^verbatim>\<open>parent == 0\<close>), its
  rectangle after a \<^verbatim>\<open>performLayout\<close> that returns is its stored bounds; on a
  well-formed engine the call returns.
\<close>

theorem performLayout_root_one_rect:
  assumes "getElement 1 st = Some el" and "parent el = 0"
  shows "(wellFormed st \<longrightarrow> (\<exists>n st'. performLayout n st = Inr st')) \<and>
         (\<forall>n st'. performLayout n st = Inr st' \<longrightarrow>
            m_elementLayoutRects st' 1 = Some (bounds el))"
proof (intro conjI allI impI)
  assume "wellFormed st"
  then show "\<exists>n st'. performLayout n st = Inr st'"
    using performLayout_terminates by blast
next
  fix n st' assume "performLayout n st = Inr st'"
  with assms show "m_elementLayoutRects st' 1 = Some (bounds el)"
    using performContainerLayout_root_rect [of n 1 st st' 1 el]
    by (simp add: performLayout_def getElement_def)
qed

theorem performLayout_root_one_rect_witness:
  "getElement 1 engine_two_roots =
     Some (Element_default\<lparr>bounds := \<lparr>x = 0, y = 0, width = 300, height = 100\<rparr>\<rparr>) \<and>
   parent (Element_default\<lparr>bounds := \<lparr>x = 0, y = 0, width = 300, height = 100\<rparr>\<rparr>) = 0 \<and>
   wellFormed engine_two_roots \<and>
   performLayout 2 engine_two_roots =
     Inr (engine_two_roots\<lparr>m_elementLayoutRects :=
            [1 \<mapsto> \<lparr>x = 0, y = 0, width = 300, height = 100\<rparr>]\<rparr>) \<and>
   m_elementLayoutRects (engine_two_roots\<lparr>m_elementLayoutRects :=
            [1 \<mapsto> \<lparr>x = 0, y = 0, width = 300, height = 100\<rparr>]\<rparr>) 1 =
     Some (bounds (Element_default\<lparr>bounds := \<lparr>x = 0, y = 0, width = 300, height = 100\<rparr>\<rparr>))"
proof -
  have g: "getElement 1 engine_two_roots =
     Some (Element_default\<lparr>bounds := \<lparr>x = 0, y = 0, width = 300, height = 100\<rparr>\<rparr>)"
    by (simp add: getElement_def engine_two_roots_def)
  have p: "parent (Element_default\<lparr>bounds := \<lparr>x = 0, y = 0, width = 300, height = 100\<rparr>\<rparr>) = 0"
    by (simp add: Element_default_def)
  from performLayout_root_one_rect [OF g p] engine_two_roots_layout
  have "m_elementLayoutRects (engine_two_roots\<lparr>m_elementLayoutRects :=
            [1 \<mapsto> \<lparr>x = 0, y = 0, width = 300, height = 100\<rparr>]\<rparr>) 1 =
     Some (bounds (Element_default\<lparr>bounds := \<lparr>x = 0, y = 0, width = 300, height = 100\<rparr>\<rparr>))"
    by blast
  with g p engine_two_roots_wellFormed engine_two_roots_layout show ?thesis by blast
qed

section \<open>The distributable span\<close>

lemma reserveFixed_result:
  "reserveFixed els ax es r = Inr pb \<Longrightarrow>
   pb = (if ax = Horizontal then r\<lparr>width := width r - fixedTotal els ax es\<rparr>
         else r\<lparr>height := height r - fixedTotal els ax es\<rparr>)"
proof (induction es arbitrary: r)
  case Nil
  then show ?case by simp
next
  case (Cons e es)
  from Cons.prems obtain c where c: "els e = Some c" by (auto split: option.splits)
  show ?case
  proof (cases "proportion c = 0")
    case True
    with Cons.prems c Cons.IH [of "if ax = Horizontal
        then r\<lparr>width := width r - mainSize ax (bounds c)\<rparr>
        else r\<lparr>height := height r - mainSize ax (bounds c)\<rparr>"]
    show ?thesis by (auto simp: mainSize_def Let_def)
  next
    case False
    with Cons.prems c Cons.IH [of r] show ?thesis by (auto simp: Let_def)
  qed
qed

lemma layoutSize_reserveFixed:
  "reserveFixed els (axis el) (children el) r = Inr pb \<Longrightarrow>
   layoutSize el pb =
     mainSize (axis el) r - fixedTotal els (axis el) (children el) - border el * 2"
  by (drule reserveFixed_result) (auto simp: layoutSize_def mainSize_def)

text \<open>
  Claim C1, amended. In a pass over a container with children, the span \<^verbatim>\<open>size\<close> with which
  the children are sized is the main-axis size of the container's rectangle, minus the
  stored main-axis sizes of the fixed children (proportion 0), minus twice the border:
  the reservation for the fixed children is part of it.
\<close>

theorem performContainerLayout_size_reserves_fixed:
  "performContainerLayout (Suc n) eid st = Inr st' \<Longrightarrow> getElement eid st = Some el \<Longrightarrow>
   children el \<noteq> [] \<Longrightarrow>
   \<exists>r st2 tp pb.
     rectAt eid (seedRoot eid el st) = (r, st2) \<and>
     totalProportions (m_elements st) (children el) = Inr tp \<and>
     reserveFixed (m_elements st) (axis el) (children el) r = Inr pb \<and>
     layoutSize el pb =
       mainSize (axis el) r - fixedTotal (m_elements st) (axis el) (children el) - border el * 2 \<and>
     layoutChildren (performContainerLayout n) el (layoutSize el pb) tp (children el) pb st2 =
       Inr st'"
proof -
  assume run: "performContainerLayout (Suc n) eid st = Inr st'"
    and el: "getElement eid st = Some el" and ch: "children el \<noteq> []"
  from run show ?thesis
  proof (cases rule: performContainerLayout_Suc_cases)
    case absent
    with el show ?thesis by simp
  next
    case (leaf el')
    with el ch show ?thesis by simp
  next
    case (container el' tp r st2 pb)
    with el have [simp]: "el' = el" by simp
    from container layoutSize_reserveFixed [of "m_elements st" el r pb]
    show ?thesis by auto
  qed
qed

text \<open>
  Claim C1, as stated, fails. For the root of width 300 without border, with a fixed child
  of width 100 and a stretch child, the loop of lines 172-178 leaves the width 200 in
  \<^verbatim>\<open>parentBounds\<close>, from which line 179 reads \<^verbatim>\<open>size = 200\<close>, not \<open>300 - 2 * 0\<close>; the
  stretch child is 200 wide after the pass.
\<close>

theorem layoutSize_original_size_counterexample:
  "getElement 1 engine_fixed_stretch =
     Some (Element_default\<lparr>bounds := \<lparr>x = 0, y = 0, width = 300, height = 100\<rparr>,
             border := 0, spacing := 0, children := [2, 3]\<rparr>) \<and>
   reserveFixed (m_elements engine_fixed_stretch) Horizontal [2, 3]
       \<lparr>x = 0, y = 0, width = 300, height = 100\<rparr> =
     Inr \<lparr>x = 0, y = 0, width = 200, height = 100\<rparr> \<and>
   layoutSize (Element_default\<lparr>bounds := \<lparr>x = 0, y = 0, width = 300, height = 100\<rparr>,
                 border := 0, spacing := 0, children := [2, 3]\<rparr>)
       \<lparr>x = 0, y = 0, width = 200, height = 100\<rparr> = 200 \<and>
   mainSize Horizontal \<lparr>x = 0, y = 0, width = 300, height = 100\<rparr> - 0 * 2 = (300 :: c_int) \<and>
   (200 :: c_int) \<noteq> 300 \<and>
   performLayout 2 engine_fixed_stretch =
     Inr (engine_fixed_stretch\<lparr>m_elementLayoutRects :=
        [1 \<mapsto> \<lparr>x = 0, y = 0, width = 300, height = 100\<rparr>,
         2 \<mapsto> \<lparr>x = 0, y = 0, width = 100, height = 100\<rparr>,
         3 \<mapsto> \<lparr>x = 100, y = 0, width = 200, height = 100\<rparr>]\<rparr>)"
  using engine_fixed_stretch_layout
  by (simp add: getElement_def engine_fixed_stretch_def Element_default_def layoutSize_def
        mainSize_def)

theorem performContainerLayout_size_reserves_fixed_witness:
  "performContainerLayout (Suc 1) 1 engine_fixed_stretch =
     Inr (engine_fixed_stretch\<lparr>m_elementLayoutRects :=
        [1 \<mapsto> \<lparr>x = 0, y = 0, width = 300, height = 100\<rparr>,
         2 \<mapsto> \<lparr>x = 0, y = 0, width = 100, height = 100\<rparr>,
         3 \<mapsto> \<lparr>x = 100, y = 0, width = 200, height = 100\<rparr>]\<rparr>) \<and>
   getElement 1 engine_fixed_stretch =
     Some (Element_default\<lparr>bounds := \<lparr>x = 0, y = 0, width = 300, height = 100\<rparr>,
             border := 0, spacing := 0, children := [2, 3]\<rparr>) \<and>
   children (Element_default\<lparr>bounds := \<lparr>x = 0, y = 0, width = 300, height = 100\<rparr>,
             border := 0, spacing := 0, children := [2, 3]\<rparr>) = [2, 3] \<and>
   (\<exists>pb. reserveFixed (m_elements engine_fixed_stretch) Horizontal [2, 3]
       \<lparr>x = 0, y = 0, width = 300, height = 100\<rparr> = Inr pb \<and>
      layoutSize (Element_default\<lparr>bounds := \<lparr>x = 0, y = 0, width = 300, height = 100\<rparr>,
             border := 0, spacing := 0, children := [2, 3]\<rparr>) pb = 300 - 100 - 0 * 2)"
proof -
  let ?el = "Element_default\<lparr>bounds := \<lparr>x = 0, y = 0, width = 300, height = 100\<rparr>,
             border := 0, spacing := 0, children := [2, 3]\<rparr>"
  have run: "performContainerLayout (Suc 1) 1 engine_fixed_stretch =
     Inr (engine_fixed_stretch\<lparr>m_elementLayoutRects :=
        [1 \<mapsto> \<lparr>x = 0, y = 0, width = 300, height = 100\<rparr>,
         2 \<mapsto> \<lparr>x = 0, y = 0, width = 100, height = 100\<rparr>,
         3 \<mapsto> \<lparr>x = 100, y = 0, width = 200, height = 100\<rparr>]\<rparr>)"
    using engine_fixed_stretch_layout by (simp add: performLayout_def numeral_2_eq_2)
  have g: "getElement 1 engine_fixed_stretch = Some ?el"
    by (simp add: getElement_def engine_fixed_stretch_def)
  have ch: "children ?el \<noteq> []" by (simp add: Element_default_def)
  from performContainerLayout_size_reserves_fixed [OF run g ch]
  obtain r st2 tp pb where
    ra: "rectAt 1 (seedRoot 1 ?el engine_fixed_stretch) = (r, st2)" and
    rf: "reserveFixed (m_elements engine_fixed_stretch) (axis ?el) (children ?el) r = Inr pb" and
    ls: "layoutSize ?el pb = mainSize (axis ?el) r -
           fixedTotal (m_elements engine_fixed_stretch) (axis ?el) (children ?el) - border ?el * 2"
    by blast
  from ra have r: "r = \<lparr>x = 0, y = 0, width = 300, height = 100\<rparr>"
    by (auto simp: rectAt_def seedRoot_def Element_default_def)
  have ft: "fixedTotal (m_elements engine_fixed_stretch) Horizontal [2, 3] = 100"
    by (simp add: engine_fixed_stretch_def Element_default_def mainSize_def)
  from rf ls r ft have "reserveFixed (m_elements engine_fixed_stretch) Horizontal [2, 3]
       \<lparr>x = 0, y = 0, width = 300, height = 100\<rparr> = Inr pb \<and>
      layoutSize ?el pb = 300 - 100 - 0 * 2"
    by (simp add: Element_default_def mainSize_def)
  with run g show ?thesis by (auto simp: Element_default_def)
qed

section \<open>What a pass over a well-formed engine leaves in the rectangle map\<close>

text \<open>
  In a well-formed engine a pass over \<open>eid\<close> stores only above \<open>eid\<close>, apart from the
  seeding (or default insertion) of \<open>eid\<close> itself.
\<close>

lemma performContainerLayout_frame:
  "wellFormed st \<Longrightarrow> performContainerLayout n eid st = Inr st' \<Longrightarrow>
   (\<forall>k<eid. m_elementLayoutRects st' k = m_elementLayoutRects st k) \<and>
   (\<forall>el. m_elements st eid = Some el \<longrightarrow>
      m_elementLayoutRects st' eid =
        (if parent el = 0 then Some (bounds el)
         else if children el = [] then m_elementLayoutRects st eid
         else Some (case m_elementLayoutRects st eid of None \<Rightarrow> Rect_default | Some r \<Rightarrow> r)))"
proof (induction n arbitrary: eid st st')
  case 0
  then show ?case by simp
next
  case (Suc n)
  note wf = Suc.prems(1)
  from Suc.prems(2) show ?case
  proof (cases rule: performContainerLayout_Suc_cases)
    case absent
    then show ?thesis by (simp add: getElement_def)
  next
    case (leaf el)
    then show ?thesis by (auto simp: getElement_def seedRoot_def)
  next
    case (container el tp r st2 pb)
    from container(1) have el: "m_elements st eid = Some el" by (simp add: getElement_def)
    have reg2: "m_elements st2 = m_elements st" "m_globalID st2 = m_globalID st"
      using rectAt_registry [OF container(4)] by simp_all
    let ?I = "\<lambda>es (pb :: Rect) s.
       m_elements s = m_elements st \<and> m_globalID s = m_globalID st \<and>
       set es \<subseteq> set (children el) \<and>
       (\<forall>k\<le>eid. m_elementLayoutRects s k = m_elementLayoutRects st2 k)"
    have "\<exists>pb'. ?I [] pb' st'"
    proof (rule layoutChildren_rule [where I = ?I, OF container(6)])
      show "?I (children el) pb st2" using reg2 by simp
    next
      fix e es' pb s c ret pb' s2
      assume I: "?I (e # es') pb s"
        and rec: "performContainerLayout n e
           (s\<lparr>m_elementLayoutRects := (m_elementLayoutRects s)(e \<mapsto> ret)\<rparr>) = Inr s2"
      let ?s1 = "s\<lparr>m_elementLayoutRects := (m_elementLayoutRects s)(e \<mapsto> ret)\<rparr>"
      from I have e: "e \<in> set (children el)" by simp
      from wellFormedD(4) [OF wf el e] have lt: "eid < e" by simp
      have wf1: "wellFormed ?s1" using wf I by (simp add: wellFormed_def)
      from Suc.IH [OF wf1 rec] have
        "\<forall>k<e. m_elementLayoutRects s2 k = m_elementLayoutRects ?s1 k" by simp
      with lt I have "\<forall>k\<le>eid. m_elementLayoutRects s2 k = m_elementLayoutRects st2 k"
        by auto
      moreover from performContainerLayout_registry [OF rec] I
      have "m_elements s2 = m_elements st \<and> m_globalID s2 = m_globalID st" by simp
      ultimately show "?I es' pb' s2" using I by simp
    qed
    then have keep: "\<forall>k\<le>eid. m_elementLayoutRects st' k = m_elementLayoutRects st2 k" by simp
    from container(4) have st2: "m_elementLayoutRects st2 eid = Some r"
      "\<forall>k. k \<noteq> eid \<longrightarrow> m_elementLayoutRects st2 k = m_elementLayoutRects (seedRoot eid el st) k"
      using rectAt_other [OF container(4)] by simp_all
    have r: "r = (case m_elementLayoutRects (seedRoot eid el st) eid of
                   None \<Rightarrow> Rect_default | Some v \<Rightarrow> v)"
      using container(4) by (auto simp: rectAt_def split: option.splits)
    have below: "\<forall>k<eid. m_elementLayoutRects st' k = m_elementLayoutRects st k"
      using keep st2(2) by (auto simp: seedRoot_def)
    have self: "m_elementLayoutRects st' eid =
        (if parent el = 0 then Some (bounds el)
         else if children el = [] then m_elementLayoutRects st eid
         else Some (case m_elementLayoutRects st eid of None \<Rightarrow> Rect_default | Some r \<Rightarrow> r))"
      using keep st2(1) r container(2) by (auto simp: seedRoot_def)
    from below self el show ?thesis by simp
  qed
qed

lemma childRects_fst:
  "(c, ret) \<in> set (childRects els el sz tp es pb) \<Longrightarrow> c \<in> set es"
  by (induction es arbitrary: pb) (auto split: option.splits prod.splits)

lemma childRects_complete:
  "\<forall>e\<in>set es. els e \<noteq> None \<Longrightarrow> map fst (childRects els el sz tp es pb) = es"
  by (induction es arbitrary: pb) (auto split: option.splits prod.splits)

text \<open>
  After the loop every child holds the rectangle that \<open>childRects\<close> computes for it: the
  child's own pass does not touch it, and the later siblings store above it.
\<close>

lemma layoutChildren_assigns:
  assumes "wellFormed st"
    and "layoutChildren (performContainerLayout n) el sz tp es pb st = Inr st'"
    and "sorted_wrt (<) es"
    and "\<forall>e\<in>set es. \<exists>ec. m_elements st e = Some ec \<and> parent ec \<noteq> 0"
  shows "(\<forall>(c, ret)\<in>set (childRects (m_elements st) el sz tp es pb).
            m_elementLayoutRects st' c = Some ret) \<and>
         (\<forall>k. (\<forall>e\<in>set es. k < e) \<longrightarrow> m_elementLayoutRects st' k = m_elementLayoutRects st k)"
  using assms
proof (induction es arbitrary: pb st)
  case Nil
  then show ?case by simp
next
  case (Cons e es)
  note wf = Cons.prems(1)
  from Cons.prems(4) obtain c where c: "m_elements st e = Some c" and pc0: "parent c \<noteq> 0"
    by auto
  obtain ret pb' where pc: "placeChild el sz tp (e \<noteq> last (children el)) c pb = (ret, pb')"
    by (cases "placeChild el sz tp (e \<noteq> last (children el)) c pb") auto
  let ?s1 = "st\<lparr>m_elementLayoutRects := (m_elementLayoutRects st)(e \<mapsto> ret)\<rparr>"
  from Cons.prems(2) c pc obtain s2 where
    rec: "performContainerLayout n e ?s1 = Inr s2" and
    rest: "layoutChildren (performContainerLayout n) el sz tp es pb' s2 = Inr st'"
    by (auto simp: getElement_def split: sum.splits)
  have wf1: "wellFormed ?s1" using wf by (simp add: wellFormed_def)
  from performContainerLayout_registry [OF rec]
  have reg: "m_elements s2 = m_elements st" "m_globalID s2 = m_globalID st" by simp_all
  have wf2: "wellFormed s2" using wf reg by (simp add: wellFormed_def)
  from performContainerLayout_frame [OF wf1 rec] c pc0
  have fr: "\<forall>k<e. m_elementLayoutRects s2 k = m_elementLayoutRects ?s1 k"
    and self: "m_elementLayoutRects s2 e = Some ret"
    by auto
  have IH: "(\<forall>(c, ret)\<in>set (childRects (m_elements s2) el sz tp es pb').
              m_elementLayoutRects st' c = Some ret) \<and>
         (\<forall>k. (\<forall>e\<in>set es. k < e) \<longrightarrow> m_elementLayoutRects st' k = m_elementLayoutRects s2 k)"
    by (rule Cons.IH [OF wf2 rest]) (use Cons.prems(3,4) reg in auto)
  from Cons.prems(3) have "\<forall>e'\<in>set es. e < e'" by simp
  with IH self have e': "m_elementLayoutRects st' e = Some ret" by simp
  have "\<forall>k. (\<forall>e'\<in>set (e # es). k < e') \<longrightarrow>
          m_elementLayoutRects st' k = m_elementLayoutRects st k"
    using IH fr by auto
  with IH e' c pc reg show ?case by simp
qed

lemma containerRects_SomeD:
  "containerRects els el r = Some crs \<Longrightarrow>
   \<exists>tp pb. totalProportions els (children el) = Inr tp \<and>
     reserveFixed els (axis el) (children el) r = Inr pb \<and>
     crs = childRects els el (layoutSize el pb) tp (children el) pb"
  unfolding containerRects_def by (simp split: sum.splits)

lemma laidOutD:
  "laidOut s p \<Longrightarrow> m_elements s p = Some el \<Longrightarrow> children el \<noteq> [] \<Longrightarrow>
   \<exists>r crs. m_elementLayoutRects s p = Some r \<and>
     containerRects (m_elements s) el r = Some crs \<and>
     (\<forall>(c, ret)\<in>set crs. m_elementLayoutRects s c = Some ret)"
  unfolding laidOut_def by blast

lemma laidOut_cong:
  assumes "laidOut s p" "m_elements s' = m_elements s"
    "m_elementLayoutRects s' p = m_elementLayoutRects s p"
    "\<And>el c. m_elements s p = Some el \<Longrightarrow> c \<in> set (children el) \<Longrightarrow>
       m_elementLayoutRects s' c = m_elementLayoutRects s c"
  shows "laidOut s' p"
  unfolding laidOut_def
proof (intro allI impI)
  fix el assume "m_elements s' p = Some el \<and> children el \<noteq> []"
  then have el: "m_elements s p = Some el" and ne: "children el \<noteq> []"
    using assms(2) by simp_all
  from laidOutD [OF assms(1) el ne] obtain r crs where
    r: "m_elementLayoutRects s p = Some r" and
    crs: "containerRects (m_elements s) el r = Some crs" and
    all: "\<forall>(c, ret)\<in>set crs. m_elementLayoutRects s c = Some ret"
    by blast
  have "m_elementLayoutRects s' c = Some ret" if m: "(c, ret) \<in> set crs" for c ret
  proof -
    from containerRects_SomeD [OF crs] m have "c \<in> set (children el)"
      using childRects_fst by blast
    from assms(4) [OF el this] all m show ?thesis by auto
  qed
  then have "\<forall>(c, ret)\<in>set crs. m_elementLayoutRects s' c = Some ret" by auto
  with r crs assms(2,3)
  show "\<exists>r crs. m_elementLayoutRects s' p = Some r \<and>
          containerRects (m_elements s') el r = Some crs \<and>
          (\<forall>(c, ret)\<in>set crs. m_elementLayoutRects s' c = Some ret)"
    by simp
qed

lemma laidOut_child_rect:
  assumes "wellFormed s" "laidOut s p" "m_elements s p = Some el" "c \<in> set (children el)"
  shows "\<exists>r crs ret. m_elementLayoutRects s p = Some r \<and>
           containerRects (m_elements s) el r = Some crs \<and> (c, ret) \<in> set crs \<and>
           m_elementLayoutRects s c = Some ret"
proof -
  from assms(4) have ne: "children el \<noteq> []" by auto
  from laidOutD [OF assms(2,3) ne] obtain r crs where
    r: "m_elementLayoutRects s p = Some r" and
    crs: "containerRects (m_elements s) el r = Some crs" and
    all: "\<forall>(c, ret)\<in>set crs. m_elementLayoutRects s c = Some ret"
    by blast
  have kids: "\<forall>e\<in>set (children el). m_elements s e \<noteq> None"
    using wellFormedD(4) [OF assms(1,3)] by auto
  from containerRects_SomeD [OF crs] childRects_complete [OF kids]
  have "map fst crs = children el" by auto
  with assms(4) have "c \<in> fst ` set crs" by (metis set_map)
  then obtain ret where m: "(c, ret) \<in> set crs" by auto
  with all have "m_elementLayoutRects s c = Some ret" by auto
  with r crs m show ?thesis by blast
qed

lemma reaches_children:
  "reaches els a b \<Longrightarrow> a \<noteq> b \<Longrightarrow>
   \<exists>el c. els a = Some el \<and> c \<in> set (children el) \<and> reaches els c b"
  by (erule reaches.cases) auto

text \<open>
  The main invariant: a pass over \<open>eid\<close> leaves every element reached from \<open>eid\<close> laid
  out, and keeps laid out whatever was.
\<close>

lemma performContainerLayout_laidOut:
  "wellFormed st \<Longrightarrow> performContainerLayout n eid st = Inr st' \<Longrightarrow>
   laidOut st p \<or> reaches (m_elements st) eid p \<Longrightarrow> laidOut st' p"
proof (induction n arbitrary: eid st st' p)
  case 0
  then show ?case by simp
next
  case (Suc n)
  note wf = Suc.prems(1)
  have untouched: "laidOut (seedRoot eid el st) p"
    if lo: "laidOut st p" and el: "m_elements st eid = Some el" and ne: "p \<noteq> eid" for el
  proof (rule laidOut_cong [OF lo])
    show "m_elements (seedRoot eid el st) = m_elements st" by simp
    show "m_elementLayoutRects (seedRoot eid el st) p = m_elementLayoutRects st p"
      using ne by (simp add: seedRoot_def)
    fix pel c assume p: "m_elements st p = Some pel" and c: "c \<in> set (children pel)"
    show "m_elementLayoutRects (seedRoot eid el st) c = m_elementLayoutRects st c"
    proof (cases "c = eid")
      case True
      with wellFormedD(4) [OF wf p c] el have "parent el = p" by auto
      with wellFormedD(1) [OF wf p] show ?thesis by (simp add: seedRoot_def)
    next
      case False
      then show ?thesis by (simp add: seedRoot_def)
    qed
  qed
  from Suc.prems(2) show ?case
  proof (cases rule: performContainerLayout_Suc_cases)
    case absent
    show ?thesis
    proof (cases "p = eid")
      case True
      with absent show ?thesis by (simp add: laidOut_def getElement_def)
    next
      case False
      with Suc.prems(3) absent show ?thesis
        by (auto simp: getElement_def dest: reaches_children)
    qed
  next
    case (leaf el)
    show ?thesis
    proof (cases "p = eid")
      case True
      with leaf show ?thesis by (simp add: laidOut_def getElement_def)
    next
      case False
      with Suc.prems(3) leaf have "laidOut st p"
        by (auto simp: getElement_def dest: reaches_children)
      with leaf False show ?thesis by (auto simp: getElement_def intro: untouched)
    qed
  next
    case (container el tp r st2 pb)
    from container(1) have el: "m_elements st eid = Some el" by (simp add: getElement_def)
    have reg2: "m_elements st2 = m_elements st" "m_globalID st2 = m_globalID st"
      using rectAt_registry [OF container(4)] by simp_all
    have wf2: "wellFormed st2" using wf reg2 by (simp add: wellFormed_def)
    have reg': "m_elements st' = m_elements st"
      using performContainerLayout_registry [OF Suc.prems(2)] by simp
    show ?thesis
    proof (cases "p = eid")
      case True
      have kids: "\<forall>e\<in>set (children el). \<exists>ec. m_elements st2 e = Some ec \<and> parent ec \<noteq> 0"
        using wellFormedD(4) [OF wf el] wellFormedD(1) [OF wf el] reg2 by auto
      from layoutChildren_assigns [OF wf2 container(6) wellFormedD(3) [OF wf el] kids]
      have all: "\<forall>(c, ret)\<in>set (childRects (m_elements st) el (layoutSize el pb) tp (children el) pb).
            m_elementLayoutRects st' c = Some ret"
        and fr: "\<forall>k. (\<forall>e\<in>set (children el). k < e) \<longrightarrow>
            m_elementLayoutRects st' k = m_elementLayoutRects st2 k"
        using reg2 by simp_all
      from fr wellFormedD(4) [OF wf el] rectAt_other [OF container(4)]
      have "m_elementLayoutRects st' eid = Some r" by auto
      moreover have "containerRects (m_elements st) el r =
          Some (childRects (m_elements st) el (layoutSize el pb) tp (children el) pb)"
        using container(3,5) by (simp add: containerRects_def)
      ultimately show ?thesis
        using all el True reg' unfolding laidOut_def by auto
    next
      case False
      have start: "laidOut st2 p \<or> (\<exists>e\<in>set (children el). reaches (m_elements st) e p)"
      proof (cases "laidOut st p")
        case True
        have "laidOut st2 p"
        proof (rule laidOut_cong [OF untouched [OF True el False]])
          show "m_elements st2 = m_elements (seedRoot eid el st)" using reg2 by simp
          show "m_elementLayoutRects st2 p = m_elementLayoutRects (seedRoot eid el st) p"
            using rectAt_other [OF container(4)] False by simp
          fix pel c assume p: "m_elements (seedRoot eid el st) p = Some pel"
            and c: "c \<in> set (children pel)"
          show "m_elementLayoutRects st2 c = m_elementLayoutRects (seedRoot eid el st) c"
          proof (cases "c = eid")
            case True
            from p have p': "m_elements st p = Some pel" by simp
            from laidOut_child_rect [OF wf \<open>laidOut st p\<close> p' c] True
            have some: "m_elementLayoutRects st eid \<noteq> None" by auto
            from wellFormedD(4) [OF wf p' c] True el have "parent el = p" by auto
            with wellFormedD(1) [OF wf p'] have "seedRoot eid el st = st"
              by (simp add: seedRoot_def)
            with some rectAt_other [OF container(4)] True show ?thesis by auto
          next
            case False
            with rectAt_other [OF container(4)] show ?thesis by simp
          qed
        qed
        then show ?thesis ..
      next
        case no: False
        with Suc.prems(3) have "reaches (m_elements st) eid p" by simp
        from reaches_children [OF this] False el show ?thesis by auto
      qed
      let ?I = "\<lambda>es (pb :: Rect) s.
         m_elements s = m_elements st \<and> m_globalID s = m_globalID st \<and>
         set es \<subseteq> set (children el) \<and>
         (laidOut s p \<or> (\<exists>e\<in>set es. reaches (m_elements st) e p))"
      have "\<exists>pb'. ?I [] pb' st'"
      proof (rule layoutChildren_rule [where I = ?I, OF container(6)])
        show "?I (children el) pb st2" using reg2 start by simp
      next
        fix e es' pb s c ret pb' s2
        assume I: "?I (e # es') pb s"
          and rec: "performContainerLayout n e
             (s\<lparr>m_elementLayoutRects := (m_elementLayoutRects s)(e \<mapsto> ret)\<rparr>) = Inr s2"
        let ?s1 = "s\<lparr>m_elementLayoutRects := (m_elementLayoutRects s)(e \<mapsto> ret)\<rparr>"
        from I have e: "e \<in> set (children el)" by simp
        have wfs: "wellFormed s" using wf I by (simp add: wellFormed_def)
        have wf1: "wellFormed ?s1" using wf I by (simp add: wellFormed_def)
        from performContainerLayout_registry [OF rec] I
        have regs: "m_elements s2 = m_elements st \<and> m_globalID s2 = m_globalID st" by simp
        from I consider
          (now) "reaches (m_elements st) e p"
          | (later) "\<exists>e'\<in>set es'. reaches (m_elements st) e' p"
          | (kept) "laidOut s p" "\<not> reaches (m_elements st) e p"
          by auto
        then have "laidOut s2 p \<or> (\<exists>e\<in>set es'. reaches (m_elements st) e p)"
        proof cases
          case now
          with Suc.IH [OF wf1 rec, of p] I show ?thesis by simp
        next
          case later
          then show ?thesis ..
        next
          case kept
          then have pe: "p \<noteq> e" by (auto intro: reaches.here)
          have "laidOut ?s1 p"
          proof (rule laidOut_cong [OF kept(1)])
            show "m_elements ?s1 = m_elements s" by simp
            show "m_elementLayoutRects ?s1 p = m_elementLayoutRects s p" using pe by simp
            fix pel c' assume p: "m_elements s p = Some pel" and c': "c' \<in> set (children pel)"
            have "c' \<noteq> e"
            proof
              assume "c' = e"
              with wellFormedD(4) [OF wfs p c'] wellFormedD(4) [OF wf el e] I
              have "p = eid" by auto
              with False show False by simp
            qed
            then show "m_elementLayoutRects ?s1 c' = m_elementLayoutRects s c'" by simp
          qed
          with Suc.IH [OF wf1 rec, of p] show ?thesis by simp
        qed
        with regs I show "?I es' pb' s2" by auto
      qed
      then show ?thesis by simp
    qed
  qed
qed

section \<open>The rectangles of one container\<close>

text \<open>What one iteration does to the child's rectangle and to the cursor, by axis.\<close>

lemma placeChild_facts:
  assumes "placeChild el sz tp nl c pb = (ret, pb')"
  shows "crossSize (axis el) ret = crossSize (axis el) pb - border el * 2"
    and "crossSize (axis el) pb' = crossSize (axis el) pb"
    and "mainPos (axis el) ret = mainPos (axis el) (bounds c) + (mainPos (axis el) pb + border el)"
    and "mainPos (axis el) pb' =
           mainPos (axis el) pb + (mainSize (axis el) ret + (if nl then spacing el else 0))"
  using assms
  by (cases "axis el"; auto simp: placeChild_def Let_def crossSize_def mainPos_def mainSize_def)+

lemma childRects_cross:
  "(c, ret) \<in> set (childRects els el sz tp es pb) \<Longrightarrow>
   crossSize (axis el) ret = crossSize (axis el) pb - border el * 2"
proof (induction es arbitrary: pb)
  case Nil
  then show ?case by simp
next
  case (Cons e es)
  from Cons.prems obtain ce where ce: "els e = Some ce" by (cases "els e") auto
  obtain r1 pb' where pc: "placeChild el sz tp (e \<noteq> last (children el)) ce pb = (r1, pb')"
    by (cases "placeChild el sz tp (e \<noteq> last (children el)) ce pb") auto
  from Cons.prems ce pc consider "ret = r1" | "(c, ret) \<in> set (childRects els el sz tp es pb')"
    by auto
  then show ?case
  proof cases
    case 1
    with placeChild_facts(1) [OF pc] show ?thesis by simp
  next
    case 2
    from Cons.IH [OF 2] placeChild_facts(2) [OF pc] show ?thesis by simp
  qed
qed

lemma reserveFixed_cross:
  "reserveFixed els ax es r = Inr pb \<Longrightarrow> crossSize ax pb = crossSize ax r"
  by (drule reserveFixed_result) (auto simp: crossSize_def)

lemma reserveFixed_mainPos:
  "reserveFixed els ax es r = Inr pb \<Longrightarrow> mainPos ax pb = mainPos ax r"
  by (drule reserveFixed_result) (auto simp: mainPos_def)

lemma childRects_adjacent:
  assumes "children el = pre @ es" "distinct (children el)"
    and "\<forall>e\<in>set es. els e \<noteq> None"
    and "Suc j < length es" "els (es ! j) = Some e1" "els (es ! Suc j) = Some e2"
  shows "\<exists>r1 r2. childRects els el sz tp es pb ! j = (es ! j, r1) \<and>
           childRects els el sz tp es pb ! Suc j = (es ! Suc j, r2) \<and>
           mainPos (axis el) r2 =
             mainPos (axis el) r1 + (mainSize (axis el) r1 + spacing el) +
             (mainPos (axis el) (bounds e2) - mainPos (axis el) (bounds e1))"
  using assms
proof (induction es arbitrary: pb pre j)
  case Nil
  then show ?case by simp
next
  case (Cons e es)
  from Cons.prems(3) obtain ce where ce: "els e = Some ce" by auto
  obtain r1 pb' where pc: "placeChild el sz tp (e \<noteq> last (children el)) ce pb = (r1, pb')"
    by (cases "placeChild el sz tp (e \<noteq> last (children el)) ce pb") auto
  have unfold: "childRects els el sz tp (e # es) pb = (e, r1) # childRects els el sz tp es pb'"
    using ce pc by simp
  from Cons.prems(4) obtain e' es' where es: "es = e' # es'" by (cases es) auto
  have notlast: "e \<noteq> last (children el)"
  proof -
    from Cons.prems(1) es have "last (children el) = last es" by simp
    moreover from es have "last es \<in> set es" by simp
    moreover from Cons.prems(1,2) have "e \<notin> set es" by simp
    ultimately show ?thesis by auto
  qed
  show ?case
  proof (cases j)
    case 0
    from Cons.prems(3) es obtain ce' where ce': "els e' = Some ce'" by auto
    obtain r2 pb'' where
      pc2: "placeChild el sz tp (e' \<noteq> last (children el)) ce' pb' = (r2, pb'')"
      by (cases "placeChild el sz tp (e' \<noteq> last (children el)) ce' pb'") auto
    from 0 Cons.prems(5,6) es ce ce' have e12: "e1 = ce" "e2 = ce'" by simp_all
    have "childRects els el sz tp (e # es) pb ! 0 = (e, r1)" using unfold by simp
    moreover have "childRects els el sz tp (e # es) pb ! Suc 0 = (e', r2)"
      using unfold es ce' pc2 by simp
    moreover have "mainPos (axis el) r2 =
             mainPos (axis el) r1 + (mainSize (axis el) r1 + spacing el) +
             (mainPos (axis el) (bounds e2) - mainPos (axis el) (bounds e1))"
      using placeChild_facts(3,4) [OF pc] placeChild_facts(3) [OF pc2] notlast e12 by simp
    ultimately show ?thesis using 0 es by simp
  next
    case (Suc j')
    have "\<exists>r1 r2. childRects els el sz tp es pb' ! j' = (es ! j', r1) \<and>
           childRects els el sz tp es pb' ! Suc j' = (es ! Suc j', r2) \<and>
           mainPos (axis el) r2 =
             mainPos (axis el) r1 + (mainSize (axis el) r1 + spacing el) +
             (mainPos (axis el) (bounds e2) - mainPos (axis el) (bounds e1))"
    proof (rule Cons.IH [of "pre @ [e]"])
      show "children el = (pre @ [e]) @ es" using Cons.prems(1) by simp
      show "distinct (children el)" by fact
      show "\<forall>e\<in>set es. els e \<noteq> None" using Cons.prems(3) by simp
      show "Suc j' < length es" using Cons.prems(4) Suc by simp
      show "els (es ! j') = Some e1" using Cons.prems(5) Suc by simp
      show "els (es ! Suc j') = Some e2" using Cons.prems(6) Suc by simp
    qed
    with unfold Suc show ?thesis by simp
  qed
qed

lemma sint_add_nonneg:
  fixes a d :: c_int
  assumes "0 \<le> sint d" "sint a + sint d < 2 ^ 31"
  shows "sint a \<le> sint (a + d)"
proof -
  have "- (2 ^ 31) \<le> sint a" using sint_ge [of a] by simp
  with assms have "sint (a + d) = sint a + sint d"
    by (simp add: sint_word_ariths signed_take_bit_int_eq_self)
  with assms show ?thesis by simp
qed

section \<open>Cross-axis size and main-axis order of the children\<close>

text \<open>
  Claim C4, amended. On a well-formed engine (every child is a registered element,
  younger than its container, whose \<open>parent\<close> field names that container, and children
  are in creation order) \<^verbatim>\<open>performLayout\<close> returns, and after it every container that
  the pass has reached from identity 1 and every child of it have rectangles in the map,
  and the child's cross-axis size (height for a horizontal container, width for a
  vertical one) is the container's cross-axis size minus twice the container's border, in
  \<^verbatim>\<open>unsigned\<close> arithmetic, whatever the child's proportion is.
\<close>

theorem performLayout_cross_axis_forced:
  assumes "wellFormed st" and "reaches (m_elements st) 1 p" and "getElement p st = Some el"
    and "c \<in> set (children el)"
  shows "(\<exists>n st'. performLayout n st = Inr st') \<and>
         (\<forall>n st'. performLayout n st = Inr st' \<longrightarrow>
            (\<exists>pr cr. m_elementLayoutRects st' p = Some pr \<and>
               m_elementLayoutRects st' c = Some cr \<and>
               crossSize (axis el) cr = crossSize (axis el) pr - 2 * border el \<and>
               (axis el = Horizontal \<longrightarrow> height cr = height pr - 2 * border el) \<and>
               (axis el = Vertical \<longrightarrow> width cr = width pr - 2 * border el)))"
proof (intro conjI allI impI)
  show "\<exists>n st'. performLayout n st = Inr st'"
    using performLayout_terminates [OF assms(1)] by blast
next
  fix n st' assume "performLayout n st = Inr st'"
  then have run: "performContainerLayout n 1 st = Inr st'"
    by (simp add: performLayout_def)
  from performContainerLayout_registry [OF run]
  have reg: "m_elements st' = m_elements st" "m_globalID st' = m_globalID st" by simp_all
  have wf': "wellFormed st'" using assms(1) reg by (simp add: wellFormed_def)
  have lo: "laidOut st' p"
    using performContainerLayout_laidOut [OF assms(1) run] assms(2) by blast
  have el: "m_elements st' p = Some el" using assms(3) reg by (simp add: getElement_def)
  from laidOut_child_rect [OF wf' lo el assms(4)] obtain pr crs cr where
    pr: "m_elementLayoutRects st' p = Some pr" and
    crs: "containerRects (m_elements st') el pr = Some crs" and
    m: "(c, cr) \<in> set crs" and cr: "m_elementLayoutRects st' c = Some cr"
    by blast
  from containerRects_SomeD [OF crs] obtain tp pb where
    pb: "reserveFixed (m_elements st') (axis el) (children el) pr = Inr pb" and
    eq: "crs = childRects (m_elements st') el (layoutSize el pb) tp (children el) pb"
    by blast
  from m eq have "crossSize (axis el) cr = crossSize (axis el) pb - border el * 2"
    using childRects_cross by blast
  with reserveFixed_cross [OF pb]
  have cross: "crossSize (axis el) cr = crossSize (axis el) pr - 2 * border el"
    by (simp add: mult.commute)
  then have "(axis el = Horizontal \<longrightarrow> height cr = height pr - 2 * border el) \<and>
           (axis el = Vertical \<longrightarrow> width cr = width pr - 2 * border el)"
    by (auto simp: crossSize_def)
  with pr cr cross
  show "\<exists>pr cr. m_elementLayoutRects st' p = Some pr \<and>
          m_elementLayoutRects st' c = Some cr \<and>
          crossSize (axis el) cr = crossSize (axis el) pr - 2 * border el \<and>
          (axis el = Horizontal \<longrightarrow> height cr = height pr - 2 * border el) \<and>
          (axis el = Vertical \<longrightarrow> width cr = width pr - 2 * border el)"
    by blast
qed

theorem performLayout_cross_axis_forced_witness:
  "wellFormed engine_fixed_stretch \<and>
   reaches (m_elements engine_fixed_stretch) 1 1 \<and>
   getElement 1 engine_fixed_stretch =
     Some (Element_default\<lparr>bounds := \<lparr>x = 0, y = 0, width = 300, height = 100\<rparr>,
             border := 0, spacing := 0, children := [2, 3]\<rparr>) \<and>
   performLayout 2 engine_fixed_stretch =
     Inr (engine_fixed_stretch\<lparr>m_elementLayoutRects :=
        [1 \<mapsto> \<lparr>x = 0, y = 0, width = 300, height = 100\<rparr>,
         2 \<mapsto> \<lparr>x = 0, y = 0, width = 100, height = 100\<rparr>,
         3 \<mapsto> \<lparr>x = 100, y = 0, width = 200, height = 100\<rparr>]\<rparr>) \<and>
   (\<exists>pr cr. m_elementLayoutRects (engine_fixed_stretch\<lparr>m_elementLayoutRects :=
        [1 \<mapsto> \<lparr>x = 0, y = 0, width = 300, height = 100\<rparr>,
         2 \<mapsto> \<lparr>x = 0, y = 0, width = 100, height = 100\<rparr>,
         3 \<mapsto> \<lparr>x = 100, y = 0, width = 200, height = 100\<rparr>]\<rparr>) 1 = Some pr \<and>
      m_elementLayoutRects (engine_fixed_stretch\<lparr>m_elementLayoutRects :=
        [1 \<mapsto> \<lparr>x = 0, y = 0, width = 300, height = 100\<rparr>,
         2 \<mapsto> \<lparr>x = 0, y = 0, width = 100, height = 100\<rparr>,
         3 \<mapsto> \<lparr>x = 100, y = 0, width = 200, height = 100\<rparr>]\<rparr>) 2 = Some cr \<and>
      height cr = height pr - 2 * 0)"
proof -
  let ?el = "Element_default\<lparr>bounds := \<lparr>x = 0, y = 0, width = 300, height = 100\<rparr>,
             border := 0, spacing := 0, children := [2, 3]\<rparr>"
  have g: "getElement 1 engine_fixed_stretch = Some ?el"
    by (simp add: getElement_def engine_fixed_stretch_def)
  have c: "2 \<in> set (children ?el)" by (simp add: Element_default_def)
  have ax: "axis ?el = Horizontal" "border ?el = 0" by (simp_all add: Element_default_def)
  have r: "reaches (m_elements engine_fixed_stretch) 1 1" by (rule reaches.here)
  from performLayout_cross_axis_forced [OF engine_fixed_stretch_wellFormed r g c]
    engine_fixed_stretch_layout ax
  have "\<exists>pr cr. m_elementLayoutRects (engine_fixed_stretch\<lparr>m_elementLayoutRects :=
        [1 \<mapsto> \<lparr>x = 0, y = 0, width = 300, height = 100\<rparr>,
         2 \<mapsto> \<lparr>x = 0, y = 0, width = 100, height = 100\<rparr>,
         3 \<mapsto> \<lparr>x = 100, y = 0, width = 200, height = 100\<rparr>]\<rparr>) 1 = Some pr \<and>
      m_elementLayoutRects (engine_fixed_stretch\<lparr>m_elementLayoutRects :=
        [1 \<mapsto> \<lparr>x = 0, y = 0, width = 300, height = 100\<rparr>,
         2 \<mapsto> \<lparr>x = 0, y = 0, width = 100, height = 100\<rparr>,
         3 \<mapsto> \<lparr>x = 100, y = 0, width = 200, height = 100\<rparr>]\<rparr>) 2 = Some cr \<and>
      height cr = height pr - 2 * 0"
    by (metis (no_types, lifting))
  with engine_fixed_stretch_wellFormed engine_fixed_stretch_layout r g show ?thesis by blast
qed

text \<open>
  Claim C4, as stated, fails on an engine that is not well-formed. When a child's
  \<open>parent\<close> field is 0 while it is still in its container's children, the container
  stores the forced rectangle for it, and the child's own pass then seeds its stored
  bounds over it (lines 156-158): under the root (0, 0, 300, 100) without border, the
  child ends with its stored (7, 8, 9, 10), of height 10 and not 100.
\<close>

theorem performLayout_detached_child_counterexample:
  "getElement 1 engine_detached_child =
     Some (Element_default\<lparr>bounds := \<lparr>x = 0, y = 0, width = 300, height = 100\<rparr>,
             border := 0, spacing := 0, children := [2]\<rparr>) \<and>
   children (Element_default\<lparr>bounds := \<lparr>x = 0, y = 0, width = 300, height = 100\<rparr>,
             border := 0, spacing := 0, children := [2]\<rparr>) = [2] \<and>
   axis (Element_default\<lparr>bounds := \<lparr>x = 0, y = 0, width = 300, height = 100\<rparr>,
             border := 0, spacing := 0, children := [2]\<rparr>) = Horizontal \<and>
   performLayout 2 engine_detached_child =
     Inr (engine_detached_child\<lparr>m_elementLayoutRects :=
        [1 \<mapsto> \<lparr>x = 0, y = 0, width = 300, height = 100\<rparr>,
         2 \<mapsto> \<lparr>x = 7, y = 8, width = 9, height = 10\<rparr>]\<rparr>) \<and>
   m_elementLayoutRects (engine_detached_child\<lparr>m_elementLayoutRects :=
        [1 \<mapsto> \<lparr>x = 0, y = 0, width = 300, height = 100\<rparr>,
         2 \<mapsto> \<lparr>x = 7, y = 8, width = 9, height = 10\<rparr>]\<rparr>) 1 =
     Some \<lparr>x = 0, y = 0, width = 300, height = 100\<rparr> \<and>
   m_elementLayoutRects (engine_detached_child\<lparr>m_elementLayoutRects :=
        [1 \<mapsto> \<lparr>x = 0, y = 0, width = 300, height = 100\<rparr>,
         2 \<mapsto> \<lparr>x = 7, y = 8, width = 9, height = 10\<rparr>]\<rparr>) 2 =
     Some \<lparr>x = 7, y = 8, width = 9, height = 10\<rparr> \<and>
   crossSize Horizontal \<lparr>x = 7, y = 8, width = 9, height = 10\<rparr> = 10 \<and>
   crossSize Horizontal \<lparr>x = 0, y = 0, width = 300, height = 100\<rparr> - 2 * 0 = (100 :: c_int) \<and>
   (10 :: c_int) \<noteq> 100"
  using engine_detached_child_layout
  by (simp add: getElement_def engine_detached_child_def Element_default_def crossSize_def)

text \<open>
  Claim C7, amended. On a well-formed engine \<^verbatim>\<open>performLayout\<close> returns, and after it,
  for two consecutive children of a container reached from identity 1: the position of
  the second along the main axis is the position of the first, plus the size of the first
  before the spacing was deducted (its final size plus the spacing), plus the difference
  of their stored main-axis offsets, in 32-bit arithmetic. So the second is not before
  the first when the two stored offsets are equal, that size is not negative and the sum
  does not overflow \<^verbatim>\<open>int\<close>.
\<close>

theorem performLayout_next_child_position:
  assumes "wellFormed st" and "reaches (m_elements st) 1 p" and "getElement p st = Some el"
    and "Suc j < length (children el)"
    and "getElement (children el ! j) st = Some e1"
    and "getElement (children el ! Suc j) st = Some e2"
  shows "(\<exists>n st'. performLayout n st = Inr st') \<and>
   (\<forall>n st'. performLayout n st = Inr st' \<longrightarrow>
     (\<exists>r1 r2.
       m_elementLayoutRects st' (children el ! j) = Some r1 \<and>
       m_elementLayoutRects st' (children el ! Suc j) = Some r2 \<and>
       mainPos (axis el) r2 =
         mainPos (axis el) r1 + (mainSize (axis el) r1 + spacing el) +
         (mainPos (axis el) (bounds e2) - mainPos (axis el) (bounds e1)) \<and>
       (mainPos (axis el) (bounds e1) = mainPos (axis el) (bounds e2) \<and>
        0 \<le> sint (mainSize (axis el) r1 + spacing el) \<and>
        sint (mainPos (axis el) r1) + sint (mainSize (axis el) r1 + spacing el) < 2 ^ 31 \<longrightarrow>
        sint (mainPos (axis el) r1) \<le> sint (mainPos (axis el) r2))))"
proof (intro conjI allI impI)
  show "\<exists>n st'. performLayout n st = Inr st'"
    using performLayout_terminates [OF assms(1)] by blast
next
  fix n st' assume "performLayout n st = Inr st'"
  then have run: "performContainerLayout n 1 st = Inr st'"
    by (simp add: performLayout_def)
  from performContainerLayout_registry [OF run]
  have reg: "m_elements st' = m_elements st" "m_globalID st' = m_globalID st" by simp_all
  have lo: "laidOut st' p"
    using performContainerLayout_laidOut [OF assms(1) run] assms(2) by blast
  have el: "m_elements st p = Some el" using assms(3) by (simp add: getElement_def)
  from assms(4) have ne: "children el \<noteq> []" by auto
  from laidOutD [OF lo _ ne] el reg obtain pr crs where
    crs: "containerRects (m_elements st) el pr = Some crs" and
    all: "\<forall>(c, ret)\<in>set crs. m_elementLayoutRects st' c = Some ret"
    by auto
  from containerRects_SomeD [OF crs] obtain tp pb where
    eq: "crs = childRects (m_elements st) el (layoutSize el pb) tp (children el) pb"
    by blast
  have kids: "\<forall>e\<in>set (children el). m_elements st e \<noteq> None"
    using wellFormedD(4) [OF assms(1) el] by auto
  have dist: "distinct (children el)"
    using wellFormedD(3) [OF assms(1) el] by (simp add: strict_sorted_iff)
  have len: "length crs = length (children el)"
    using childRects_complete [OF kids, of el "layoutSize el pb" tp pb] eq
    by (metis length_map)
  from childRects_adjacent [of el "[]" "children el" "m_elements st" j e1 e2
         "layoutSize el pb" tp pb] dist kids assms(4-6) eq
  obtain r1 r2 where
    c1: "crs ! j = (children el ! j, r1)" and c2: "crs ! Suc j = (children el ! Suc j, r2)" and
    pos: "mainPos (axis el) r2 =
       mainPos (axis el) r1 + (mainSize (axis el) r1 + spacing el) +
       (mainPos (axis el) (bounds e2) - mainPos (axis el) (bounds e1))"
    by (auto simp: getElement_def)
  from c1 c2 len assms(4) have "(children el ! j, r1) \<in> set crs"
    "(children el ! Suc j, r2) \<in> set crs"
    by (metis Suc_lessD nth_mem)+
  with all have r1: "m_elementLayoutRects st' (children el ! j) = Some r1"
    and r2: "m_elementLayoutRects st' (children el ! Suc j) = Some r2"
    by auto
  have "sint (mainPos (axis el) r1) \<le> sint (mainPos (axis el) r2)"
    if "mainPos (axis el) (bounds e1) = mainPos (axis el) (bounds e2)"
      "0 \<le> sint (mainSize (axis el) r1 + spacing el)"
      "sint (mainPos (axis el) r1) + sint (mainSize (axis el) r1 + spacing el) < 2 ^ 31"
    using sint_add_nonneg [OF that(2,3)] pos that(1) by simp
  with r1 r2 pos
  show "\<exists>r1 r2.
       m_elementLayoutRects st' (children el ! j) = Some r1 \<and>
       m_elementLayoutRects st' (children el ! Suc j) = Some r2 \<and>
       mainPos (axis el) r2 =
         mainPos (axis el) r1 + (mainSize (axis el) r1 + spacing el) +
         (mainPos (axis el) (bounds e2) - mainPos (axis el) (bounds e1)) \<and>
       (mainPos (axis el) (bounds e1) = mainPos (axis el) (bounds e2) \<and>
        0 \<le> sint (mainSize (axis el) r1 + spacing el) \<and>
        sint (mainPos (axis el) r1) + sint (mainSize (axis el) r1 + spacing el) < 2 ^ 31 \<longrightarrow>
        sint (mainPos (axis el) r1) \<le> sint (mainPos (axis el) r2))"
    by blast
qed

text \<open>
  Claim C7, as stated, fails in two ways. The stored main-axis offset of a child is added
  to its position: with the offsets 50 and 0 the first child is at 50 and the second at
  10. And sizes are not clamped: under a border of 20 in a container of width 10 each
  stretch child is -15 wide, the first is at 20 and the second at 5.
\<close>

theorem performLayout_child_order_counterexample:
  "createElements
     [Element_default\<lparr>bounds := \<lparr>x = 0, y = 0, width = 100, height = 100\<rparr>,
        border := 0, spacing := 0\<rparr>,
      Element_default\<lparr>parent := 1, bounds := \<lparr>x = 50, y = 0, width = 10, height = 0\<rparr>,
        proportion := 0\<rparr>,
      Element_default\<lparr>parent := 1, bounds := \<lparr>x = 0, y = 0, width = 10, height = 0\<rparr>,
        proportion := 0\<rparr>]
     Flexer_init = Inr ([1, 2, 3], engine_offsets) \<and>
   performLayout 2 engine_offsets =
     Inr (engine_offsets\<lparr>m_elementLayoutRects :=
        [1 \<mapsto> \<lparr>x = 0, y = 0, width = 100, height = 100\<rparr>,
         2 \<mapsto> \<lparr>x = 50, y = 0, width = 10, height = 100\<rparr>,
         3 \<mapsto> \<lparr>x = 10, y = 0, width = 10, height = 100\<rparr>]\<rparr>) \<and>
   \<not> sint (50 :: c_int) \<le> sint (10 :: c_int) \<and>
   createElements
     [Element_default\<lparr>bounds := \<lparr>x = 0, y = 0, width = 10, height = 100\<rparr>,
        border := 20, spacing := 0\<rparr>,
      Element_default\<lparr>parent := 1, bounds := \<lparr>x = 0, y = 0, width = 0, height = 0\<rparr>\<rparr>,
      Element_default\<lparr>parent := 1, bounds := \<lparr>x = 0, y = 0, width = 0, height = 0\<rparr>\<rparr>]
     Flexer_init = Inr ([1, 2, 3], engine_narrow) \<and>
   performLayout 2 engine_narrow =
     Inr (engine_narrow\<lparr>m_elementLayoutRects :=
        [1 \<mapsto> \<lparr>x = 0, y = 0, width = 10, height = 100\<rparr>,
         2 \<mapsto> \<lparr>x = 20, y = 20, width = - 15, height = 60\<rparr>,
         3 \<mapsto> \<lparr>x = 5, y = 20, width = - 15, height = 60\<rparr>]\<rparr>) \<and>
   \<not> sint (20 :: c_int) \<le> sint (5 :: c_int)"
  using engine_offsets_created engine_offsets_layout engine_narrow_created engine_narrow_layout
  by simp

theorem performLayout_next_child_position_witness:
  "wellFormed engine_fixed_stretch \<and>
   reaches (m_elements engine_fixed_stretch) 1 1 \<and>
   getElement 1 engine_fixed_stretch =
     Some (Element_default\<lparr>bounds := \<lparr>x = 0, y = 0, width = 300, height = 100\<rparr>,
             border := 0, spacing := 0, children := [2, 3]\<rparr>) \<and>
   Suc 0 < length [2, 3 :: EID] \<and>
   getElement 2 engine_fixed_stretch =
     Some (Element_default\<lparr>parent := 1,
             bounds := \<lparr>x = 0, y = 0, width = 100, height = 0\<rparr>, proportion := 0\<rparr>) \<and>
   getElement 3 engine_fixed_stretch =
     Some (Element_default\<lparr>parent := 1,
             bounds := \<lparr>x = 0, y = 0, width = 0, height = 0\<rparr>\<rparr>) \<and>
   performLayout 2 engine_fixed_stretch =
     Inr (engine_fixed_stretch\<lparr>m_elementLayoutRects :=
        [1 \<mapsto> \<lparr>x = 0, y = 0, width = 300, height = 100\<rparr>,
         2 \<mapsto> \<lparr>x = 0, y = 0, width = 100, height = 100\<rparr>,
         3 \<mapsto> \<lparr>x = 100, y = 0, width = 200, height = 100\<rparr>]\<rparr>) \<and>
   (0 :: c_int) = 0 \<and> 0 \<le> sint (100 + 0 :: c_int) \<and>
   sint (0 :: c_int) + sint (100 + 0 :: c_int) < 2 ^ 31 \<and>
   sint (0 :: c_int) \<le> sint (100 :: c_int)"
proof -
  let ?el = "Element_default\<lparr>bounds := \<lparr>x = 0, y = 0, width = 300, height = 100\<rparr>,
             border := 0, spacing := 0, children := [2, 3]\<rparr>"
  let ?e1 = "Element_default\<lparr>parent := 1,
             bounds := \<lparr>x = 0, y = 0, width = 100, height = 0\<rparr>, proportion := 0\<rparr>"
  let ?e2 = "Element_default\<lparr>parent := 1,
             bounds := \<lparr>x = 0, y = 0, width = 0, height = 0\<rparr>\<rparr>"
  have g: "getElement 1 engine_fixed_stretch = Some ?el"
    by (simp add: getElement_def engine_fixed_stretch_def)
  have l: "Suc 0 < length (children ?el)" by (simp add: Element_default_def)
  have g1: "getElement (children ?el ! 0) engine_fixed_stretch = Some ?e1"
    by (simp add: getElement_def engine_fixed_stretch_def Element_default_def)
  have g2: "getElement (children ?el ! Suc 0) engine_fixed_stretch = Some ?e2"
    by (simp add: getElement_def engine_fixed_stretch_def Element_default_def)
  have r: "reaches (m_elements engine_fixed_stretch) 1 1" by (rule reaches.here)
  from performLayout_next_child_position
         [OF engine_fixed_stretch_wellFormed r g l g1 g2, THEN conjunct2, rule_format,
          OF engine_fixed_stretch_layout]
  have "sint (0 :: c_int) \<le> sint (100 :: c_int)"
    by (auto simp: Element_default_def mainPos_def mainSize_def)
  with engine_fixed_stretch_wellFormed engine_fixed_stretch_layout r g g1 g2
  show ?thesis by (simp add: Element_default_def)
qed

section \<open>A pass as a set of stores; idempotence\<close>

lemma withRects_simps [simp]:
  "m_elements (withRects s D) = m_elements s"
  "m_globalID (withRects s D) = m_globalID s"
  "m_elementLayoutRects (withRects s D) = m_elementLayoutRects s ++ D"
  "withRects (withRects s A) B = withRects s (A ++ B)"
  "withRects s Map.empty = s"
  by (simp_all add: withRects_def)

lemma withRects_upd:
  "s\<lparr>m_elementLayoutRects := (m_elementLayoutRects s)(e \<mapsto> v)\<rparr> = withRects s [e \<mapsto> v]"
  by (simp add: withRects_def)

lemma sumProportions_registered:
  "sumProportions els es acc = Inr t \<Longrightarrow> \<forall>e\<in>set es. els e \<noteq> None"
  by (induction es arbitrary: acc) (auto split: option.splits)

lemma totalProportions_registered:
  "totalProportions els es = Inr tp \<Longrightarrow> \<forall>e\<in>set es. els e \<noteq> None"
  unfolding totalProportions_def
  by (cases "sumProportions els es 0") (auto dest: sumProportions_registered)

lemma layoutChildren_runs:
  assumes "layoutChildren rec el sz tp es pb st = Inr st'"
    and "\<And>e s s'. rec e s = Inr s' \<Longrightarrow> m_elements s' = m_elements s"
  shows "\<forall>e\<in>set es. m_elements st e \<noteq> None \<and>
           (\<exists>u u'. m_elements u = m_elements st \<and> rec e u = Inr u')"
  using assms(1)
proof (induction es arbitrary: pb st)
  case Nil
  then show ?case by simp
next
  case (Cons e es)
  from Cons.prems obtain c where c: "getElement e st = Some c"
    by (auto split: option.splits)
  obtain ret pb' where pc: "placeChild el sz tp (e \<noteq> last (children el)) c pb = (ret, pb')"
    by (cases "placeChild el sz tp (e \<noteq> last (children el)) c pb") auto
  let ?s1 = "st\<lparr>m_elementLayoutRects := (m_elementLayoutRects st)(e \<mapsto> ret)\<rparr>"
  from Cons.prems c pc obtain s2 where
    r: "rec e ?s1 = Inr s2" and
    rest: "layoutChildren rec el sz tp es pb' s2 = Inr st'"
    by (auto split: sum.splits)
  from assms(2) [OF r] have reg: "m_elements s2 = m_elements st" by simp
  have here: "m_elements st e \<noteq> None \<and>
      (\<exists>u u'. m_elements u = m_elements st \<and> rec e u = Inr u')"
  proof
    show "m_elements st e \<noteq> None" using c by (simp add: getElement_def)
    have "m_elements ?s1 = m_elements st" by simp
    with r show "\<exists>u u'. m_elements u = m_elements st \<and> rec e u = Inr u'" by blast
  qed
  from Cons.IH [OF rest] reg here show ?case by simp
qed

lemma passInput_written:
  "m_elements s e = Some c \<Longrightarrow>
   passInput e (s\<lparr>m_elementLayoutRects := (m_elementLayoutRects s)(e \<mapsto> ret)\<rparr>) =
     (if children c = [] then Rect_default else if parent c = 0 then bounds c else ret)"
  by (simp add: passInput_def rectAt_def seedRoot_def)

text \<open>
  The loop and the pass as stores: which rectangles a pass stores depends on the registry
  and on \<open>passInput\<close> only, not on the rest of the rectangle map.
\<close>

lemma layoutChildren_writes:
  assumes "\<forall>e\<in>set es. \<exists>c. m_elements st e = Some c \<and>
     (\<forall>r. \<exists>D. \<forall>s. m_elements s = m_elements st \<and> passInput e s = r \<longrightarrow>
        rec e s = Inr (withRects s D))"
  shows "\<exists>D. \<forall>s. m_elements s = m_elements st \<longrightarrow>
           layoutChildren rec el sz tp es pb s = Inr (withRects s D)"
  using assms
proof (induction es arbitrary: pb)
  case Nil
  have "\<forall>s. m_elements s = m_elements st \<longrightarrow>
           layoutChildren rec el sz tp [] pb s = Inr (withRects s Map.empty)" by simp
  then show ?case by blast
next
  case (Cons e es)
  from Cons.prems obtain c where c: "m_elements st e = Some c" and
    each: "\<forall>r. \<exists>D. \<forall>s. m_elements s = m_elements st \<and> passInput e s = r \<longrightarrow>
        rec e s = Inr (withRects s D)"
    by auto
  obtain ret pb' where pc: "placeChild el sz tp (e \<noteq> last (children el)) c pb = (ret, pb')"
    by (cases "placeChild el sz tp (e \<noteq> last (children el)) c pb") auto
  let ?r = "if children c = [] then Rect_default else if parent c = 0 then bounds c else ret"
  from each obtain De where De:
    "\<forall>s. m_elements s = m_elements st \<and> passInput e s = ?r \<longrightarrow> rec e s = Inr (withRects s De)"
    by blast
  from Cons.IH [of pb'] Cons.prems obtain Dr where Dr:
    "\<forall>s. m_elements s = m_elements st \<longrightarrow>
       layoutChildren rec el sz tp es pb' s = Inr (withRects s Dr)"
    by auto
  have "layoutChildren rec el sz tp (e # es) pb s = Inr (withRects s (([e \<mapsto> ret] ++ De) ++ Dr))"
    if reg: "m_elements s = m_elements st" for s
  proof -
    let ?s1 = "s\<lparr>m_elementLayoutRects := (m_elementLayoutRects s)(e \<mapsto> ret)\<rparr>"
    have c': "m_elements s e = Some c" using c reg by simp
    have "passInput e ?s1 = ?r" by (rule passInput_written [OF c'])
    with De reg have r: "rec e ?s1 = Inr (withRects ?s1 De)" by simp
    have s1: "withRects ?s1 De = withRects s ([e \<mapsto> ret] ++ De)"
      by (simp add: withRects_upd)
    from Dr reg have "layoutChildren rec el sz tp es pb' (withRects s ([e \<mapsto> ret] ++ De)) =
        Inr (withRects (withRects s ([e \<mapsto> ret] ++ De)) Dr)"
      by simp
    with r s1 c' pc show ?thesis by (simp add: getElement_def)
  qed
  then show ?case by blast
qed

lemma rectAt_withRects:
  "rectAt eid s = (fst (rectAt eid s), withRects s [eid \<mapsto> fst (rectAt eid s)])"
  by (auto simp: rectAt_def withRects_def map_upd_triv split: option.splits)

lemma seedRoot_withRects:
  "seedRoot eid el s = withRects s (if parent el = 0 then [eid \<mapsto> bounds el] else Map.empty)"
  by (simp add: seedRoot_def withRects_def)

lemma performContainerLayout_writes:
  "performContainerLayout n eid st = Inr st' \<Longrightarrow>
   \<exists>D. \<forall>s. m_elements s = m_elements st \<and> passInput eid s = r \<longrightarrow>
     performContainerLayout n eid s = Inr (withRects s D)"
proof (induction n arbitrary: eid st st' r)
  case 0
  then show ?case by simp
next
  case (Suc n)
  from Suc.prems show ?case
  proof (cases rule: performContainerLayout_Suc_cases)
    case absent
    then have "\<forall>s. m_elements s = m_elements st \<and> passInput eid s = r \<longrightarrow>
        performContainerLayout (Suc n) eid s = Inr (withRects s Map.empty)"
      by (simp add: getElement_def)
    then show ?thesis by blast
  next
    case (leaf el)
    let ?D = "if parent el = 0 then [eid \<mapsto> bounds el] else Map.empty"
    from leaf have "\<forall>s. m_elements s = m_elements st \<and> passInput eid s = r \<longrightarrow>
        performContainerLayout (Suc n) eid s = Inr (withRects s ?D)"
      by (simp add: getElement_def totalProportions_def seedRoot_withRects)
    then show ?thesis by blast
  next
    case (container el tp r0 st2 pb0)
    from container(1) have el: "m_elements st eid = Some el" by (simp add: getElement_def)
    have reg2: "m_elements st2 = m_elements st"
      using rectAt_registry [OF container(4)] by simp
    have kids: "\<forall>e\<in>set (children el). m_elements st e \<noteq> None"
      using totalProportions_registered [OF container(3)] .
    from reserveFixed_ok [OF kids] obtain pb where
      pb: "reserveFixed (m_elements st) (axis el) (children el) r = Inr pb" by blast
    have runs: "\<forall>e\<in>set (children el). m_elements st2 e \<noteq> None \<and>
           (\<exists>u u'. m_elements u = m_elements st2 \<and> performContainerLayout n e u = Inr u')"
      by (rule layoutChildren_runs [OF container(6)])
         (simp add: performContainerLayout_registry)
    have each: "\<forall>e\<in>set (children el). \<exists>c. m_elements st e = Some c \<and>
       (\<forall>r. \<exists>D. \<forall>s. m_elements s = m_elements st \<and> passInput e s = r \<longrightarrow>
          performContainerLayout n e s = Inr (withRects s D))"
    proof
      fix e assume e: "e \<in> set (children el)"
      with runs reg2 obtain c u u' where c: "m_elements st e = Some c"
        and u: "m_elements u = m_elements st" "performContainerLayout n e u = Inr u'"
        by auto
      have "\<exists>D. \<forall>s. m_elements s = m_elements st \<and> passInput e s = r' \<longrightarrow>
          performContainerLayout n e s = Inr (withRects s D)" for r'
        using Suc.IH [OF u(2), of r'] u(1) by simp
      with c show "\<exists>c. m_elements st e = Some c \<and>
       (\<forall>r. \<exists>D. \<forall>s. m_elements s = m_elements st \<and> passInput e s = r \<longrightarrow>
          performContainerLayout n e s = Inr (withRects s D))"
        by blast
    qed
    from layoutChildren_writes [OF each, of el "layoutSize el pb" tp pb] obtain Dl where Dl:
      "\<forall>s. m_elements s = m_elements st \<longrightarrow>
         layoutChildren (performContainerLayout n) el (layoutSize el pb) tp (children el) pb s =
           Inr (withRects s Dl)"
      by blast
    let ?D0 = "if parent el = 0 then [eid \<mapsto> bounds el] else Map.empty"
    have "performContainerLayout (Suc n) eid s = Inr (withRects s ((?D0 ++ [eid \<mapsto> r]) ++ Dl))"
      if reg: "m_elements s = m_elements st" and inp: "passInput eid s = r" for s
    proof -
      have g: "getElement eid s = Some el" using el reg by (simp add: getElement_def)
      from inp el reg container(2) have fr: "fst (rectAt eid (seedRoot eid el s)) = r"
        by (simp add: passInput_def)
      have ra: "rectAt eid (seedRoot eid el s) = (r, withRects s (?D0 ++ [eid \<mapsto> r]))"
        using rectAt_withRects [of eid "seedRoot eid el s"] fr
        by (simp add: seedRoot_withRects)
      from Dl reg have "layoutChildren (performContainerLayout n) el (layoutSize el pb) tp
          (children el) pb (withRects s (?D0 ++ [eid \<mapsto> r])) =
          Inr (withRects (withRects s (?D0 ++ [eid \<mapsto> r])) Dl)"
        by simp
      with g container(2,3) ra pb reg show ?thesis
        by (simp add: Let_def)
    qed
    then show ?thesis by blast
  qed
qed

lemma rectAt_read_after:
  "rectAt eid s = (r, s2) \<Longrightarrow> fst (rectAt k s2) = fst (rectAt k s)"
  by (cases "k = eid") (auto simp: rectAt_def split: option.splits)

lemma rectAt_read_upd:
  "k \<noteq> e \<Longrightarrow>
   fst (rectAt k (s\<lparr>m_elementLayoutRects := (m_elementLayoutRects s)(e \<mapsto> ret)\<rparr>)) =
   fst (rectAt k s)"
  by (auto simp: rectAt_def split: option.splits)

text \<open>
  A returning pass over \<open>eid\<close> changes what the map answers for \<open>k\<close> only by seeding the
  root \<open>k = eid\<close>, or by storing \<open>k\<close> as a child, and then a pass over \<open>k\<close> has
  returned within a smaller bound.
\<close>

lemma performContainerLayout_touches:
  "performContainerLayout n eid st = Inr st' \<Longrightarrow>
   fst (rectAt k st') = fst (rectAt k st) \<or>
   (k = eid \<and> (\<exists>el. m_elements st eid = Some el \<and> parent el = 0)) \<or>
   (\<exists>m<n. \<exists>u u'. m_elements u = m_elements st \<and> performContainerLayout m k u = Inr u')"
proof (induction n arbitrary: eid st st')
  case 0
  then show ?case by simp
next
  case (Suc n)
  from Suc.prems show ?case
  proof (cases rule: performContainerLayout_Suc_cases)
    case absent
    then show ?thesis by simp
  next
    case (leaf el)
    then show ?thesis
      by (cases "k = eid") (auto simp: getElement_def seedRoot_def rectAt_read_upd)
  next
    case (container el tp r st2 pb)
    from container(1) have el: "m_elements st eid = Some el" by (simp add: getElement_def)
    have reg2: "m_elements st2 = m_elements st"
      using rectAt_registry [OF container(4)] by simp
    let ?far = "\<exists>m<Suc n. \<exists>u u'. m_elements u = m_elements st \<and>
                  performContainerLayout m k u = Inr u'"
    let ?I = "\<lambda>(es :: EID list) (pb :: Rect) s. m_elements s = m_elements st \<and>
                (fst (rectAt k s) = fst (rectAt k st2) \<or> ?far)"
    have "\<exists>pb'. ?I [] pb' st'"
    proof (rule layoutChildren_rule [where I = ?I, OF container(6)])
      show "?I (children el) pb st2" using reg2 by simp
    next
      fix e es' pb s c ret pb' s2
      assume I: "?I (e # es') pb s"
        and rec: "performContainerLayout n e
           (s\<lparr>m_elementLayoutRects := (m_elementLayoutRects s)(e \<mapsto> ret)\<rparr>) = Inr s2"
      let ?s1 = "s\<lparr>m_elementLayoutRects := (m_elementLayoutRects s)(e \<mapsto> ret)\<rparr>"
      have reg1: "m_elements ?s1 = m_elements st" using I by simp
      from performContainerLayout_registry [OF rec] reg1
      have regs: "m_elements s2 = m_elements st" by simp
      have "fst (rectAt k s2) = fst (rectAt k st2) \<or> ?far"
      proof (cases "k = e")
        case True
        with rec reg1 have "\<exists>u u'. m_elements u = m_elements st \<and>
            performContainerLayout n k u = Inr u'" by blast
        then show ?thesis by blast
      next
        case False
        from Suc.IH [OF rec] False reg1 consider
          "fst (rectAt k s2) = fst (rectAt k ?s1)"
          | "\<exists>m<n. \<exists>u u'. m_elements u = m_elements st \<and>
               performContainerLayout m k u = Inr u'"
          by auto
        then show ?thesis
        proof cases
          case 1
          with rectAt_read_upd [OF False, of s ret] I show ?thesis by auto
        next
          case 2
          then show ?thesis using less_Suc_eq by blast
        qed
      qed
      with regs show "?I es' pb' s2" by simp
    qed
    then have fin: "fst (rectAt k st') = fst (rectAt k st2) \<or> ?far" by simp
    have st2: "fst (rectAt k st2) = fst (rectAt k (seedRoot eid el st))"
      by (rule rectAt_read_after [OF container(4)])
    show ?thesis
    proof (cases "k = eid \<and> parent el = 0")
      case True
      with el show ?thesis by simp
    next
      case False
      then have "fst (rectAt k (seedRoot eid el st)) = fst (rectAt k st)"
        by (auto simp: seedRoot_def rectAt_read_upd)
      with fin st2 show ?thesis by auto
    qed
  qed
qed

lemma map_add_self: "D ++ D = (D :: 'a \<rightharpoonup> 'b)"
  by (rule ext) (simp add: map_add_def split: option.splits)

lemma withRects_twice: "withRects (withRects s D) D = withRects s D"
  by (simp add: map_add_self)

text \<open>
  Hence a returning pass never stores over the rectangle it started from (at the least
  bound for which a pass over \<open>eid\<close> returns, a nested pass over \<open>eid\<close> cannot have
  returned), and a second pass repeats the stores of the first.
\<close>

lemma performContainerLayout_idem:
  assumes run: "performContainerLayout n eid st = Inr st'"
  shows "performContainerLayout n eid st' = Inr st'"
proof -
  have reg: "m_elements st' = m_elements st"
    using performContainerLayout_registry [OF run] by simp
  from performContainerLayout_writes [OF run, of "passInput eid st"] obtain D where D:
    "\<forall>s. m_elements s = m_elements st \<and> passInput eid s = passInput eid st \<longrightarrow>
       performContainerLayout n eid s = Inr (withRects s D)"
    by blast
  from D run have st': "st' = withRects st D" by simp
  have inp: "passInput eid st' = passInput eid st"
  proof (cases "m_elements st eid")
    case None
    with reg show ?thesis by (simp add: passInput_def)
  next
    case (Some el)
    show ?thesis
    proof (cases "children el = [] \<or> parent el = 0")
      case True
      with Some reg show ?thesis
        by (auto simp: passInput_def seedRoot_def rectAt_def)
    next
      case False
      let ?P = "\<lambda>m. \<exists>u u'. m_elements u = m_elements st \<and>
                  performContainerLayout m eid u = Inr u'"
      define n0 where "n0 = (LEAST m. ?P m)"
      from run have "?P n" by blast
      then have P0: "?P n0" and le: "n0 \<le> n"
        unfolding n0_def by (rule LeastI, rule Least_le)
      from P0 obtain u u' where u: "m_elements u = m_elements st"
        "performContainerLayout n0 eid u = Inr u'" by blast
      from performContainerLayout_writes [OF u(2), of "passInput eid st"] u(1)
      obtain D0 where "performContainerLayout n0 eid st = Inr (withRects st D0)"
        by auto
      moreover from performContainerLayout_mono [OF this le] run
      have "withRects st D0 = st'" by simp
      ultimately have run0: "performContainerLayout n0 eid st = Inr st'" by simp
      have "\<not> (\<exists>m<n0. ?P m)"
        unfolding n0_def using not_less_Least by blast
      with performContainerLayout_touches [OF run0, of eid] False Some
      have "fst (rectAt eid st') = fst (rectAt eid st)" by auto
      with Some reg False show ?thesis
        by (simp add: passInput_def seedRoot_def)
    qed
  qed
  from D reg inp have "performContainerLayout n eid st' = Inr (withRects st' D)" by simp
  also have "withRects st' D = st'" unfolding st' by (rule withRects_twice)
  finally show ?thesis .
qed

text \<open>
  Claim C6. Whenever a call of \<^verbatim>\<open>performLayout\<close> returns, a second call on the resulting
  engine, with nothing changed in between, returns too and leaves the engine, hence the
  rectangle map, exactly as the first call left it. This holds for every engine, whatever
  its registry and its rectangle map are; on a well-formed engine the call returns.
\<close>

theorem performLayout_idempotent:
  "(wellFormed st \<longrightarrow> (\<exists>n st'. performLayout n st = Inr st')) \<and>
   (\<forall>n st'. performLayout n st = Inr st' \<longrightarrow>
      performLayout n st' = Inr st' \<and>
      (\<forall>m st''. performLayout m st' = Inr st'' \<longrightarrow> st'' = st'))"
proof (intro conjI allI impI)
  assume "wellFormed st"
  then show "\<exists>n st'. performLayout n st = Inr st'"
    using performLayout_terminates by blast
next
  fix n st' assume run: "performLayout n st = Inr st'"
  then have again: "performContainerLayout n 1 st' = Inr st'"
    unfolding performLayout_def by (rule performContainerLayout_idem)
  then show "performLayout n st' = Inr st'" by (simp add: performLayout_def)
  fix m st'' assume "performLayout m st' = Inr st''"
  then have other: "performContainerLayout m 1 st' = Inr st''" by (simp add: performLayout_def)
  show "st'' = st'"
  proof (cases "m \<le> n")
    case True
    from performContainerLayout_mono [OF other True] again show ?thesis by simp
  next
    case False
    then have "n \<le> m" by simp
    from performContainerLayout_mono [OF again this] other show ?thesis by simp
  qed
qed

theorem performLayout_idempotent_witness:
  "wellFormed engine_fixed_stretch \<and>
   performLayout 2 engine_fixed_stretch =
     Inr (engine_fixed_stretch\<lparr>m_elementLayoutRects :=
        [1 \<mapsto> \<lparr>x = 0, y = 0, width = 300, height = 100\<rparr>,
         2 \<mapsto> \<lparr>x = 0, y = 0, width = 100, height = 100\<rparr>,
         3 \<mapsto> \<lparr>x = 100, y = 0, width = 200, height = 100\<rparr>]\<rparr>) \<and>
   performLayout 2 (engine_fixed_stretch\<lparr>m_elementLayoutRects :=
        [1 \<mapsto> \<lparr>x = 0, y = 0, width = 300, height = 100\<rparr>,
         2 \<mapsto> \<lparr>x = 0, y = 0, width = 100, height = 100\<rparr>,
         3 \<mapsto> \<lparr>x = 100, y = 0, width = 200, height = 100\<rparr>]\<rparr>) =
     Inr (engine_fixed_stretch\<lparr>m_elementLayoutRects :=
        [1 \<mapsto> \<lparr>x = 0, y = 0, width = 300, height = 100\<rparr>,
         2 \<mapsto> \<lparr>x = 0, y = 0, width = 100, height = 100\<rparr>,
         3 \<mapsto> \<lparr>x = 100, y = 0, width = 200, height = 100\<rparr>]\<rparr>)"
  using performLayout_idempotent [of engine_fixed_stretch]
    engine_fixed_stretch_wellFormed engine_fixed_stretch_layout
  by blast

end
